theory Spec2Isabelle
  imports Complex_Main
begin

section \<open>Python values used by the dashboard code\<close>

text \<open>
  Exceptions are values. Every \<^verbatim>\<open>raise\<close> of the modelled code, and every library
  call that raises on the modelled inputs, is a branch returning \<open>Inl\<close> of one of these.
\<close>

datatype error =
    ValueError string
  | AttributeError string
  | KeyError string
  | TypeError string
  | ZeroDivisionError

subsection \<open>Strings\<close>

text \<open>
  A Python string is modelled as the list of its code points, for code points below 256.
  \<open>py_isspace\<close> is Python's whitespace test on that range (TAB..CR, FS..US, space, NEL and
  the no-break space); \<open>py_lower_char\<close> is \<^verbatim>\<open>str.lower\<close> on it (A..Z and the
  accented capitals, the multiplication sign excepted).
\<close>

definition py_isspace :: "char \<Rightarrow> bool" where
  "py_isspace c =
     (let n = (of_char c :: nat)
      in (9 \<le> n \<and> n \<le> 13) \<or> (28 \<le> n \<and> n \<le> 32) \<or> n = 133 \<or> n = 160)"

definition py_lower_char :: "char \<Rightarrow> char" where
  "py_lower_char c =
     (let n = (of_char c :: nat)
      in if (65 \<le> n \<and> n \<le> 90) \<or> (192 \<le> n \<and> n \<le> 222 \<and> n \<noteq> 215)
         then char_of (n + 32) else c)"

definition strip :: "string \<Rightarrow> string" where
  "strip s = rev (dropWhile py_isspace (rev (dropWhile py_isspace s)))"

definition lower :: "string \<Rightarrow> string" where
  "lower s = map py_lower_char s"

text \<open>\<^verbatim>\<open>s.replace(old, new)\<close> for one-character \<open>old\<close> and \<open>new\<close>.\<close>

definition replace :: "char \<Rightarrow> char \<Rightarrow> string \<Rightarrow> string" where
  "replace old new s = map (\<lambda>c. if c = old then new else c) s"


subsection \<open>Data frames\<close>

text \<open>
  A cell is a missing value (\<open>NaN\<close>, also standing for \<^verbatim>\<open>None\<close> and \<^verbatim>\<open>NaT\<close>), an
  integer, a floating-point number (the real number it is; the infinities are not
  represented), a string, a boolean or a timestamp. A dtype is one of those the cleaner reads or produces; a categorical dtype
  carries its categories. A column label is a string, or some other object (a spreadsheet
  header cell holding a number). A data frame is its column labels with their dtypes and
  its rows, each row with its index label.
\<close>

datatype cell = NaN | IntV int | FloatV real | StrV string | BoolV bool | TimeV int

datatype dtype =
    Int64 | Int32 | Int16 | Int8
  | Float64 | Float32 | Float16
  | Object | Category "cell list" | Boolean | Datetime64

datatype colname = SName string | OName int

record table =
  columns :: "(colname \<times> dtype) list"
  rows :: "(nat \<times> cell list) list"

text \<open>\<^verbatim>\<open>df.empty\<close>: one of the two axes has length 0.\<close>

definition df_empty :: "table \<Rightarrow> bool" where
  "df_empty df = (length (rows df) = 0 \<or> length (columns df) = 0)"

definition cell_at :: "cell list \<Rightarrow> nat \<Rightarrow> cell" where
  "cell_at r j = (if j < length r then r ! j else NaN)"

definition col_cells :: "table \<Rightarrow> nat \<Rightarrow> cell list" where
  "col_cells df j = map (\<lambda>row. cell_at (snd row) j) (rows df)"

definition col_dtype :: "table \<Rightarrow> nat \<Rightarrow> dtype" where
  "col_dtype df j = snd (columns df ! j)"

text \<open>\<^verbatim>\<open>df[col] = values\<close> for the column at position \<open>j\<close>, with the dtype of the values.\<close>

definition set_col :: "table \<Rightarrow> nat \<Rightarrow> dtype \<Rightarrow> cell list \<Rightarrow> table" where
  "set_col df j d vs =
     df\<lparr>columns := (columns df)[j := (fst (columns df ! j), d)],
        rows := map (\<lambda>(row, v). (fst row, (snd row)[j := v])) (zip (rows df) vs)\<rparr>"

text \<open>
  \<^verbatim>\<open>df[col]\<close> is a Series only when the label \<open>col\<close> names one column; with a repeated
  label it is a DataFrame, and the Series operations the cleaner applies to it fail.
\<close>

definition unique_label :: "table \<Rightarrow> nat \<Rightarrow> bool" where
  "unique_label df j =
     (length (filter (\<lambda>c. fst c = fst (columns df ! j)) (columns df)) = 1)"

definition select_dtypes :: "(dtype \<Rightarrow> bool) \<Rightarrow> table \<Rightarrow> nat list" where
  "select_dtypes include df = filter (\<lambda>j. include (col_dtype df j)) [0..<length (columns df)]"

definition is_number :: "dtype \<Rightarrow> bool" where
  "is_number d = (d \<in> {Int64, Int32, Int16, Int8, Float64, Float32, Float16})"

definition isnull :: "cell \<Rightarrow> bool" where
  "isnull c = (c = NaN)"

definition num_val :: "cell \<Rightarrow> real option" where
  "num_val c = (case c of IntV i \<Rightarrow> Some (of_int i) | FloatV x \<Rightarrow> Some x
                | BoolV b \<Rightarrow> Some (if b then 1 else 0) | _ \<Rightarrow> None)"

text \<open>The numbers of a column, missing values skipped, as the pandas reductions see them.\<close>

definition numbers :: "cell list \<Rightarrow> real list" where
  "numbers cs = List.map_filter num_val cs"

definition minimum :: "'a::linorder list \<Rightarrow> 'a option" where
  "minimum xs = (case xs of [] \<Rightarrow> None | x # ys \<Rightarrow> Some (fold min ys x))"

definition maximum :: "'a::linorder list \<Rightarrow> 'a option" where
  "maximum xs = (case xs of [] \<Rightarrow> None | x # ys \<Rightarrow> Some (fold max ys x))"

text \<open>
  The order pandas sorts values by: numbers by value, strings by code point; values of
  different kinds are left in the order met.
\<close>

fun str_less :: "string \<Rightarrow> string \<Rightarrow> bool" where
  "str_less [] [] = False"
| "str_less [] (b # bs) = True"
| "str_less (a # as) [] = False"
| "str_less (a # as) (b # bs) =
     ((of_char a :: nat) < of_char b \<or> (a = b \<and> str_less as bs))"

definition cell_less :: "cell \<Rightarrow> cell \<Rightarrow> bool" where
  "cell_less a b =
     (case (a, b) of
        (StrV s, StrV t) \<Rightarrow> str_less s t
      | (TimeV s, TimeV t) \<Rightarrow> s < t
      | _ \<Rightarrow> (case (num_val a, num_val b) of (Some x, Some y) \<Rightarrow> x < y | _ \<Rightarrow> False))"

fun insort_cell :: "cell \<Rightarrow> cell list \<Rightarrow> cell list" where
  "insort_cell c [] = [c]"
| "insort_cell c (d # ds) = (if cell_less d c then d # insort_cell c ds else c # d # ds)"

definition sort_cells :: "cell list \<Rightarrow> cell list" where
  "sort_cells cs = foldr insort_cell cs []"

text \<open>The distinct values of a column in order of first appearance (\<^verbatim>\<open>Series.unique\<close>).\<close>

definition unique :: "'a list \<Rightarrow> 'a list" where
  "unique xs = rev (remdups (rev xs))"

text \<open>
  \<^verbatim>\<open>Series.mode()[0]\<close>: the most frequent value that is not missing, the least of them
  when several are as frequent; \<open>None\<close> when \<^verbatim>\<open>mode()\<close> is empty.
\<close>

definition count_of :: "cell list \<Rightarrow> cell \<Rightarrow> nat" where
  "count_of cs c = length (filter (\<lambda>d. d = c) cs)"

definition mode :: "cell list \<Rightarrow> cell option" where
  "mode cs =
     (case filter (\<lambda>c. \<not> isnull c) cs of
        [] \<Rightarrow> None
      | v # vs \<Rightarrow>
          Some (fold (\<lambda>c best.
                  if count_of cs c > count_of cs best
                     \<or> (count_of cs c = count_of cs best \<and> cell_less c best)
                  then c else best) vs v))"

definition fillna :: "cell \<Rightarrow> cell list \<Rightarrow> cell list" where
  "fillna v cs = map (\<lambda>c. if isnull c then v else c) cs"

text \<open>Forward fill: a missing value takes the last value seen, the first rows stay missing.\<close>

fun ffill :: "cell \<Rightarrow> cell list \<Rightarrow> cell list" where
  "ffill prev [] = []"
| "ffill prev (c # cs) = (if isnull c then prev # ffill prev cs else c # ffill c cs)"

text \<open>A \<^verbatim>\<open>for\<close> loop whose body may raise: the first exception ends it.\<close>

fun for_each :: "('a \<Rightarrow> 's \<Rightarrow> error + 's) \<Rightarrow> 'a list \<Rightarrow> 's \<Rightarrow> error + 's" where
  "for_each body [] s = Inr s"
| "for_each body (x # xs) s =
     (case body x s of Inl e \<Rightarrow> Inl e | Inr s' \<Rightarrow> for_each body xs s')"

subsection \<open>Floating-point numbers\<close>

text \<open>
  A \<^verbatim>\<open>float64\<close> result of numpy or pandas: a number, one of the two infinities, or
  NaN. The comparison is the one of IEEE 754: exact on numbers, and false whenever NaN
  takes part.
\<close>

datatype fval = Fin real | PosInf | NegInf | FNaN

fun f_less :: "fval \<Rightarrow> fval \<Rightarrow> bool" where
  "f_less FNaN b = False"
| "f_less a FNaN = False"
| "f_less (Fin x) (Fin y) = (x < y)"
| "f_less (Fin x) PosInf = True"
| "f_less (Fin x) NegInf = False"
| "f_less PosInf b = False"
| "f_less NegInf NegInf = False"
| "f_less NegInf b = True"

definition f_abs :: "fval \<Rightarrow> fval" where
  "f_abs a = (case a of Fin x \<Rightarrow> Fin \<bar>x\<bar> | PosInf \<Rightarrow> PosInf | NegInf \<Rightarrow> PosInf | FNaN \<Rightarrow> FNaN)"

text \<open>
  Floating-point arithmetic is a parameter of the model: the rounding that \<^verbatim>\<open>astype\<close>
  performs on a value cast to a narrower format, the \<^verbatim>\<open>float64\<close> value of an integer,
  the four operations on \<^verbatim>\<open>float64\<close> values, and the reductions \<^verbatim>\<open>Series.quantile\<close>,
  \<^verbatim>\<open>Series.mean\<close>, \<^verbatim>\<open>Series.std\<close> and \<^verbatim>\<open>Series.median\<close> (a cell: a number or
  NaN), which pandas computes in \<^verbatim>\<open>float64\<close>. What
  is proved holds for every choice of them, so for the rounding, the overflow to an infinity
  and the NaN results of the machine. The largest finite values of the two narrower formats
  are exact.
\<close>

record float_ops =
  to_float16 :: "real \<Rightarrow> real"
  to_float32 :: "real \<Rightarrow> real"
  f_of_int :: "int \<Rightarrow> fval"
  f_add :: "fval \<Rightarrow> fval \<Rightarrow> fval"
  f_sub :: "fval \<Rightarrow> fval \<Rightarrow> fval"
  f_mul :: "fval \<Rightarrow> fval \<Rightarrow> fval"
  f_div :: "fval \<Rightarrow> fval \<Rightarrow> fval"
  f_quantile :: "real \<Rightarrow> cell list \<Rightarrow> fval"
  f_mean :: "cell list \<Rightarrow> fval"
  f_std :: "cell list \<Rightarrow> fval"
  f_median :: "cell list \<Rightarrow> cell"

text \<open>
  The \<^verbatim>\<open>float64\<close> value that a cell of a numeric column has in a comparison with a
  \<^verbatim>\<open>float64\<close> scalar; a missing value is NaN.
\<close>

definition as_float :: "float_ops \<Rightarrow> cell \<Rightarrow> fval" where
  "as_float fc c = (case c of IntV v \<Rightarrow> f_of_int fc v | FloatV x \<Rightarrow> Fin x | _ \<Rightarrow> FNaN)"

section \<open>The data cleaner (utils/data\_cleaner.py)\<close>

subsection \<open>Column names\<close>

text \<open>\<^verbatim>\<open>col.strip().lower().replace(' ', '_').replace('-', '_')\<close>\<close>

definition normalize_name :: "string \<Rightarrow> string" where
  "normalize_name col = replace CHR ''-'' CHR ''_'' (replace CHR '' '' CHR ''_'' (lower (strip col)))"

text \<open>What the four calls do to one character of the stripped name.\<close>

definition norm_char :: "char \<Rightarrow> char" where
  "norm_char c = (let l = py_lower_char c in if l = CHR '' '' \<or> l = CHR ''-'' then CHR ''_'' else l)"

text \<open>A label that is not a string has no \<^verbatim>\<open>strip\<close>: the comprehension raises.\<close>

fun clean_label :: "colname \<Rightarrow> error + colname" where
  "clean_label (SName col) = Inr (SName (normalize_name col))"
| "clean_label (OName n) = Inl (AttributeError ''strip'')"

fun clean_labels :: "(colname \<times> dtype) list \<Rightarrow> error + (colname \<times> dtype) list" where
  "clean_labels [] = Inr []"
| "clean_labels ((col, d) # cs) =
     (case clean_label col of Inl e \<Rightarrow> Inl e
      | Inr col' \<Rightarrow>
          (case clean_labels cs of Inl e \<Rightarrow> Inl e | Inr cs' \<Rightarrow> Inr ((col', d) # cs')))"

definition clean_column_names :: "table \<Rightarrow> error + table" where
  "clean_column_names df =
     (case clean_labels (columns df) of Inl e \<Rightarrow> Inl e
      | Inr cs \<Rightarrow> Inr (df\<lparr>columns := cs\<rparr>))"

subsection \<open>Duplicate rows\<close>

text \<open>
  \<^verbatim>\<open>df.drop_duplicates()\<close>: of rows equal in every column the first is kept. The
  log line of \<^verbatim>\<open>_handle_duplicates\<close> has no effect on the result.
\<close>

definition drop_duplicates :: "table \<Rightarrow> table" where
  "drop_duplicates df =
     df\<lparr>rows := fold (\<lambda>row kept. if snd row \<in> set (map snd kept) then kept else kept @ [row])
                      (rows df) []\<rparr>"

definition handle_duplicates :: "table \<Rightarrow> table" where
  "handle_duplicates df = drop_duplicates df"

subsection \<open>Missing values\<close>

definition missing_counts :: "table \<Rightarrow> nat \<Rightarrow> nat" where
  "missing_counts df j = length (filter isnull (col_cells df j))"

text \<open>
  The body of the loop over the columns with missing values: the median for
  \<^verbatim>\<open>int64\<close> and \<^verbatim>\<open>float64\<close>, the mode or \<^verbatim>\<open>'Unknown'\<close> for \<^verbatim>\<open>object\<close>, forward
  fill for every other dtype. With a repeated label \<^verbatim>\<open>missing_counts[col]\<close> is a Series
  and the test \<^verbatim>\<open>missing_pct > 50\<close> raises.
\<close>

definition fill_missing :: "float_ops \<Rightarrow> nat \<Rightarrow> table \<Rightarrow> error + table" where
  "fill_missing fc j df =
     (if \<not> unique_label df j then Inl (ValueError ''The truth value of a Series is ambiguous.'')
      else let d = col_dtype df j; cs = col_cells df j
           in if d = Int64 \<or> d = Float64 then Inr (set_col df j d (fillna (f_median fc cs) cs))
              else if d = Object then
                (case mode cs of
                   Some mode_val \<Rightarrow> Inr (set_col df j d (fillna mode_val cs))
                 | None \<Rightarrow> Inr (set_col df j d (fillna (StrV ''Unknown'') cs)))
              else Inr (set_col df j d (ffill NaN cs)))"

definition handle_missing_values :: "float_ops \<Rightarrow> table \<Rightarrow> error + table" where
  "handle_missing_values fc df =
     for_each (fill_missing fc)
       (filter (\<lambda>j. missing_counts df j > 0) [0..<length (columns df)]) df"

subsection \<open>Type optimization\<close>

text \<open>
  \<^verbatim>\<open>np.iinfo\<close> of the signed \<open>w\<close>-bit type, and \<^verbatim>\<open>astype\<close> to it: numpy keeps the low
  \<open>w\<close> bits, so a value outside the range wraps around.
\<close>

definition iinfo_min :: "nat \<Rightarrow> int" where
  "iinfo_min w = - (2 ^ (w - 1))"

definition iinfo_max :: "nat \<Rightarrow> int" where
  "iinfo_max w = 2 ^ (w - 1) - 1"

definition wrap :: "nat \<Rightarrow> int \<Rightarrow> int" where
  "wrap w v = (v + 2 ^ (w - 1)) mod 2 ^ w - 2 ^ (w - 1)"

definition astype_int :: "nat \<Rightarrow> cell \<Rightarrow> cell" where
  "astype_int w c = (case c of IntV v \<Rightarrow> IntV (wrap w v) | _ \<Rightarrow> c)"

definition ints :: "cell list \<Rightarrow> int list" where
  "ints cs = List.map_filter (\<lambda>c. case c of IntV v \<Rightarrow> Some v | _ \<Rightarrow> None) cs"

text \<open>
  The \<^verbatim>\<open>int64\<close> branch: the new dtype and values, or \<open>None\<close> when no test holds and
  the column is left as it is. The minimum of an empty column is NaN, which fails every
  comparison.
\<close>

definition downcast_int :: "cell list \<Rightarrow> (dtype \<times> cell list) option" where
  "downcast_int cs =
     (case (minimum (ints cs), maximum (ints cs)) of
        (Some c_min, Some c_max) \<Rightarrow>
          if c_min > iinfo_min 8 \<and> c_max < iinfo_max 8
          then Some (Int8, map (astype_int 8) cs)
          else if c_min > iinfo_min 16 \<and> c_max < iinfo_max 16
          then Some (Int16, map (astype_int 16) cs)
          else if c_min > iinfo_min 32 \<and> c_max < iinfo_max 32
          then Some (Int32, map (astype_int 32) cs)
          else None
      | _ \<Rightarrow> None)"

text \<open>The largest finite values of the two narrower floating-point formats.\<close>

definition finfo_max16 :: real where
  "finfo_max16 = 65504"

definition finfo_max32 :: real where
  "finfo_max32 = (2 ^ 24 - 1) * 2 ^ 104"

definition astype_float :: "(real \<Rightarrow> real) \<Rightarrow> cell \<Rightarrow> cell" where
  "astype_float f c = (case c of FloatV x \<Rightarrow> FloatV (f x) | IntV v \<Rightarrow> FloatV (f (of_int v)) | _ \<Rightarrow> c)"

definition downcast_float :: "float_ops \<Rightarrow> cell list \<Rightarrow> (dtype \<times> cell list) option" where
  "downcast_float fc cs =
     (case (minimum (numbers cs), maximum (numbers cs)) of
        (Some c_min, Some c_max) \<Rightarrow>
          if c_min > - finfo_max16 \<and> c_max < finfo_max16
          then Some (Float16, map (astype_float (to_float16 fc)) cs)
          else if c_min > - finfo_max32 \<and> c_max < finfo_max32
          then Some (Float32, map (astype_float (to_float32 fc)) cs)
          else None
      | _ \<Rightarrow> None)"

text \<open>The body of the loop over the \<^verbatim>\<open>int64\<close> and \<^verbatim>\<open>float64\<close> columns.\<close>

definition optimize_numeric :: "float_ops \<Rightarrow> nat \<Rightarrow> table \<Rightarrow> error + table" where
  "optimize_numeric fc j df =
     (if \<not> unique_label df j then Inl (AttributeError ''dtype'')
      else let col_type = col_dtype df j; cs = col_cells df j
           in if col_type = Int64 then
                (case downcast_int cs of Some (d, vs) \<Rightarrow> Inr (set_col df j d vs) | None \<Rightarrow> Inr df)
              else if col_type = Float64 then
                (case downcast_float fc cs of Some (d, vs) \<Rightarrow> Inr (set_col df j d vs) | None \<Rightarrow> Inr df)
              else Inr df)"

text \<open>
  The body of the loop over the \<^verbatim>\<open>object\<close> columns: a column whose share of distinct
  values is below one half becomes categorical, its categories the sorted distinct values
  that are not missing.
\<close>

definition optimize_object :: "nat \<Rightarrow> table \<Rightarrow> error + table" where
  "optimize_object j df =
     (if \<not> unique_label df j then Inl (AttributeError ''unique'')
      else let cs = col_cells df j;
               num_unique_values = length (unique cs);
               num_total_values = length cs
           in if num_total_values = 0 then Inl ZeroDivisionError
              else if real num_unique_values / real num_total_values < 0.5
              then Inr (set_col df j (Category (sort_cells (unique (filter (\<lambda>c. \<not> isnull c) cs)))) cs)
              else Inr df)"

definition optimize_data_types :: "float_ops \<Rightarrow> table \<Rightarrow> error + table" where
  "optimize_data_types fc df =
     (case for_each (optimize_numeric fc) (select_dtypes (\<lambda>d. d = Int64 \<or> d = Float64) df) df of
        Inl e \<Rightarrow> Inl e
      | Inr df1 \<Rightarrow> for_each optimize_object (select_dtypes (\<lambda>d. d = Object) df1) df1)"

subsection \<open>Outliers\<close>

text \<open>
  \<^verbatim>\<open>Q1\<close>, \<^verbatim>\<open>Q3\<close>, \<^verbatim>\<open>IQR\<close>, \<^verbatim>\<open>lower_bound\<close> and \<^verbatim>\<open>upper_bound\<close>, each the
  \<^verbatim>\<open>float64\<close> result of its expression.
\<close>

definition iqr_bounds :: "float_ops \<Rightarrow> real \<Rightarrow> cell list \<Rightarrow> fval \<times> fval" where
  "iqr_bounds fc threshold cs =
     (let Q1 = f_quantile fc 0.25 cs;
          Q3 = f_quantile fc 0.75 cs;
          IQR = f_sub fc Q3 Q1;
          lower_bound = f_sub fc Q1 (f_mul fc (Fin threshold) IQR);
          upper_bound = f_add fc Q3 (f_mul fc (Fin threshold) IQR)
      in (lower_bound, upper_bound))"

text \<open>One entry of \<^verbatim>\<open>(df[col] < lower_bound) | (df[col] > upper_bound)\<close>.\<close>

definition iqr_mask :: "float_ops \<Rightarrow> fval \<times> fval \<Rightarrow> cell \<Rightarrow> bool" where
  "iqr_mask fc bounds c =
     (f_less (as_float fc c) (fst bounds) \<or> f_less (snd bounds) (as_float fc c))"

text \<open>
  One entry of \<^verbatim>\<open>np.abs((df[col] - df[col].mean()) / df[col].std()) > threshold\<close>.
\<close>

definition zscore_mask :: "float_ops \<Rightarrow> real \<Rightarrow> cell list \<Rightarrow> cell \<Rightarrow> bool" where
  "zscore_mask fc threshold cs c =
     f_less (Fin threshold)
       (f_abs (f_div fc (f_sub fc (as_float fc c) (f_mean fc cs)) (f_std fc cs)))"

text \<open>\<^verbatim>\<open>if outliers_count > 0: df = df[~mask]\<close>, the mask given row by row.\<close>

definition drop_masked :: "(cell \<Rightarrow> bool) \<Rightarrow> nat \<Rightarrow> table \<Rightarrow> table" where
  "drop_masked is_outlier j df =
     (let outliers_count = length (filter (\<lambda>row. is_outlier (cell_at (snd row) j)) (rows df))
      in if outliers_count > 0
         then df\<lparr>rows := filter (\<lambda>row. \<not> is_outlier (cell_at (snd row) j)) (rows df)\<rparr>
         else df)"

text \<open>
  The body of the loop over the numeric columns. With a repeated label \<^verbatim>\<open>df[col]\<close> is
  a DataFrame, the count of outliers a Series, and its test raises.
\<close>

definition outlier_step :: "float_ops \<Rightarrow> string \<Rightarrow> real \<Rightarrow> nat \<Rightarrow> table \<Rightarrow> error + table" where
  "outlier_step fc method threshold j df =
     (if method = ''iqr'' then
        (if \<not> unique_label df j then Inl (ValueError ''The truth value of a Series is ambiguous.'')
         else Inr (drop_masked (iqr_mask fc (iqr_bounds fc threshold (col_cells df j))) j df))
      else if method = ''zscore'' then
        (if \<not> unique_label df j then Inl (ValueError ''The truth value of a Series is ambiguous.'')
         else Inr (drop_masked (zscore_mask fc threshold (col_cells df j)) j df))
      else Inr df)"

definition handle_outliers :: "float_ops \<Rightarrow> string \<Rightarrow> real \<Rightarrow> table \<Rightarrow> error + table" where
  "handle_outliers fc method threshold df =
     for_each (outlier_step fc method threshold) (select_dtypes is_number df) df"

subsection \<open>The pipeline\<close>

record config =
  clean_columns :: bool
  handle_duplicates_flag :: bool
  handle_missing :: bool
  optimize_types :: bool
  remove_outliers :: bool
  outlier_method :: string
  outlier_threshold :: real

text \<open>The keyword defaults of \<^verbatim>\<open>DataCleaner.clean_data\<close>.\<close>

definition default_config :: config where
  "default_config =
     \<lparr>clean_columns = True, handle_duplicates_flag = True, handle_missing = True,
      optimize_types = True, remove_outliers = False, outlier_method = ''iqr'',
      outlier_threshold = 1.5\<rparr>"

text \<open>An optional step of the pipeline, applied to the frame the steps before produced.\<close>

definition step :: "bool \<Rightarrow> (table \<Rightarrow> error + table) \<Rightarrow> error + table \<Rightarrow> error + table" where
  "step enabled f r =
     (case r of Inl e \<Rightarrow> Inl e | Inr df \<Rightarrow> if enabled then f df else Inr df)"

text \<open>
  \<^verbatim>\<open>DataCleaner.clean_data\<close>, as a function of the frame's value. The memory figures
  it computes are only logged.
\<close>

definition clean_data :: "float_ops \<Rightarrow> table \<Rightarrow> config \<Rightarrow> error + table" where
  "clean_data fc df cfg =
     (if df_empty df then Inl (ValueError ''DataFrame is empty. No data to clean.'')
      else
        step (remove_outliers cfg) (handle_outliers fc (outlier_method cfg) (outlier_threshold cfg))
       (step (optimize_types cfg) (optimize_data_types fc)
       (step (handle_missing cfg) (handle_missing_values fc)
       (step (handle_duplicates_flag cfg) (\<lambda>d. Inr (handle_duplicates d))
       (step (clean_columns cfg) clean_column_names (Inr df))))))"

section \<open>Notions used to state the properties\<close>

text \<open>Every integer of the column lies strictly between the two limits of the \<open>w\<close>-bit type.\<close>

definition strictly_inside :: "nat \<Rightarrow> cell list \<Rightarrow> bool" where
  "strictly_inside w cs = (\<forall>v \<in> set (ints cs). iinfo_min w < v \<and> v < iinfo_max w)"

text \<open>Same labels and same index.\<close>

definition same_frame :: "table \<Rightarrow> table \<Rightarrow> bool" where
  "same_frame df out =
     (map fst (columns out) = map fst (columns df) \<and> map fst (rows out) = map fst (rows df))"

text \<open>Same columns, and rows taken from the rows of the first frame.\<close>

definition sub_frame :: "table \<Rightarrow> table \<Rightarrow> bool" where
  "sub_frame df out =
     (columns out = columns df \<and> set (rows out) \<subseteq> set (rows df)
      \<and> length (rows out) \<le> length (rows df))"

text \<open>The exceptions the optional steps of the pipeline raise.\<close>

definition step_errors :: "error set" where
  "step_errors = {AttributeError ''strip'', AttributeError ''dtype'', AttributeError ''unique'',
     ValueError ''The truth value of a Series is ambiguous.'', ZeroDivisionError}"



text \<open>
  Column \<open>j\<close> as a loop over the columns finds it: its dtype and its values.
\<close>

definition col_view :: "table \<Rightarrow> nat \<Rightarrow> dtype \<times> cell list" where
  "col_view df j = (col_dtype df j, col_cells df j)"

subsection \<open>Example inputs\<close>

text \<open>
  Floating-point operations for the examples below, whose numbers the machine computes
  without rounding: the casts change nothing, an integer is its own \<^verbatim>\<open>float64\<close> value,
  the arithmetic is exact on numbers, the quantile interpolates linearly between the two
  nearest ranks of the sorted values that are not missing, the mean is the sum over the
  count, and the median is the middle value or the mean of the two middle values. Operands that are not numbers, and the standard deviation, do not occur in the
  examples; they are given NaN.
\<close>

definition exact2 :: "(real \<Rightarrow> real \<Rightarrow> real) \<Rightarrow> fval \<Rightarrow> fval \<Rightarrow> fval" where
  "exact2 f a b = (case (a, b) of (Fin x, Fin y) \<Rightarrow> Fin (f x y) | _ \<Rightarrow> FNaN)"

definition exact_quantile :: "real \<Rightarrow> cell list \<Rightarrow> fval" where
  "exact_quantile q cs =
     (let xs = sort (numbers cs); n = length xs
      in if n = 0 then FNaN
         else let pos = real (n - 1) * q; lo = nat \<lfloor>pos\<rfloor>; hi = nat \<lceil>pos\<rceil>
              in Fin (xs ! lo + (xs ! hi - xs ! lo) * (pos - real lo)))"

definition exact_median :: "cell list \<Rightarrow> cell" where
  "exact_median cs =
     (let xs = sort (numbers cs); n = length xs
      in if n = 0 then NaN
         else if odd n then FloatV (xs ! (n div 2))
         else FloatV ((xs ! (n div 2 - 1) + xs ! (n div 2)) / 2))"

definition exact_mean :: "cell list \<Rightarrow> fval" where
  "exact_mean cs = (let xs = numbers cs
                    in if xs = [] then FNaN else Fin (sum_list xs / real (length xs)))"

definition exact_ops :: float_ops where
  "exact_ops =
     \<lparr>to_float16 = (\<lambda>x. x), to_float32 = (\<lambda>x. x), f_of_int = (\<lambda>v. Fin (of_int v)),
      f_add = exact2 (\<lambda>x y. x + y), f_sub = exact2 (\<lambda>x y. x - y),
      f_mul = exact2 (\<lambda>x y. x * y),
      f_div = (\<lambda>a b. if b = Fin 0 then FNaN else exact2 (\<lambda>x y. x / y) a b),
      f_quantile = exact_quantile, f_mean = exact_mean, f_std = (\<lambda>cs. FNaN),
      f_median = exact_median\<rparr>"

text \<open>Three columns as uploaded, with one duplicated row.\<close>

definition sales_frame :: table where
  "sales_frame =
     \<lparr>columns = [(SName ''Product Name'', Object), (SName ''Sales Amount'', Int64),
                 (SName ''Region'', Object)],
      rows = [(0, [StrV ''pen'', IntV 10, StrV ''East'']),
              (1, [StrV ''pen'', IntV 10, StrV ''East'']),
              (2, [StrV ''ink'', IntV 300, StrV ''West''])]\<rparr>"



section \<open>The data cleaner on objects\<close>

text \<open>
  The store holds the frames that exist; a reference is a position in it. A new frame goes
  to the end, so the frames that existed keep their references.
\<close>

type_synonym heap = "table list"

definition alloc :: "heap \<Rightarrow> table \<Rightarrow> heap \<times> nat" where
  "alloc h df = (h @ [df], length h)"

text \<open>
  \<^verbatim>\<open>df.copy()\<close>: a new frame with the contents of the one copied.
\<close>

definition df_copy :: "heap \<Rightarrow> nat \<Rightarrow> heap \<times> nat" where
  "df_copy h r = alloc h (h ! r)"

text \<open>
  A \<^verbatim>\<open>for\<close> loop over a state that stays as the iterations left it when one raises.
\<close>

fun run_loop :: "('a \<Rightarrow> 's \<Rightarrow> error + 's) \<Rightarrow> 'a list \<Rightarrow> 's \<Rightarrow> 's \<times> error option" where
  "run_loop body [] s = (s, None)"
| "run_loop body (x # xs) s =
     (case body x s of Inl e \<Rightarrow> (s, Some e) | Inr s' \<Rightarrow> run_loop body xs s')"

text \<open>
  A statement that assigns into the frame \<open>r\<close> (\<^verbatim>\<open>df.columns = ...\<close>,
  \<^verbatim>\<open>df[col] = ...\<close>): the frame that \<open>f\<close> computes from it takes its place in the store.
\<close>

definition assign :: "(table \<Rightarrow> error + table) \<Rightarrow> nat \<Rightarrow> heap \<Rightarrow> error + heap" where
  "assign f r h = (case f (h ! r) of Inl e \<Rightarrow> Inl e | Inr df \<Rightarrow> Inr (h[r := df]))"

text \<open>
  \<^verbatim>\<open>return df\<close> after a loop, unless the loop raised.
\<close>

definition finish :: "nat \<Rightarrow> heap \<times> error option \<Rightarrow> heap \<times> (error + nat)" where
  "finish r res = (case snd res of None \<Rightarrow> (fst res, Inr r) | Some e \<Rightarrow> (fst res, Inl e))"

text \<open>
  The methods of \<^verbatim>\<open>DataCleaner\<close> as they act on the store. Each takes the reference of
  its argument and returns the store with the reference of the frame it returns.
  \<^verbatim>\<open>_clean_column_names\<close> copies its argument and assigns the labels of the copy.
\<close>

definition clean_column_names_obj :: "heap \<Rightarrow> nat \<Rightarrow> heap \<times> (error + nat)" where
  "clean_column_names_obj h df =
     (let (h1, df1) = df_copy h df
      in case clean_labels (columns (h1 ! df1)) of
           Inl e \<Rightarrow> (h1, Inl e)
         | Inr cs \<Rightarrow> (h1[df1 := (h1 ! df1)\<lparr>columns := cs\<rparr>], Inr df1))"

text \<open>
  \<^verbatim>\<open>df.drop_duplicates()\<close> returns a new frame.
\<close>

definition handle_duplicates_obj :: "heap \<Rightarrow> nat \<Rightarrow> heap \<times> (error + nat)" where
  "handle_duplicates_obj h df =
     (let (h1, df1) = alloc h (drop_duplicates (h ! df)) in (h1, Inr df1))"

text \<open>
  \<^verbatim>\<open>_handle_missing_values\<close> and \<^verbatim>\<open>_optimize_data_types\<close> copy their argument and
  assign columns of the copy, one in each iteration.
\<close>

definition handle_missing_values_obj :: "float_ops \<Rightarrow> heap \<Rightarrow> nat \<Rightarrow> heap \<times> (error + nat)" where
  "handle_missing_values_obj fc h df =
     (let (h1, df1) = df_copy h df
      in finish df1
           (run_loop (\<lambda>j. assign (fill_missing fc j) df1)
              (filter (\<lambda>j. missing_counts (h1 ! df1) j > 0) [0..<length (columns (h1 ! df1))])
              h1))"

definition optimize_data_types_obj :: "float_ops \<Rightarrow> heap \<Rightarrow> nat \<Rightarrow> heap \<times> (error + nat)" where
  "optimize_data_types_obj fc h df =
     (let (h1, df1) = df_copy h df
      in case run_loop (\<lambda>j. assign (optimize_numeric fc j) df1)
                (select_dtypes (\<lambda>d. d = Int64 \<or> d = Float64) (h1 ! df1)) h1 of
           (h2, Some e) \<Rightarrow> (h2, Inl e)
         | (h2, None) \<Rightarrow>
             finish df1
               (run_loop (\<lambda>j. assign (optimize_object j) df1)
                  (select_dtypes (\<lambda>d. d = Object) (h2 ! df1)) h2))"

text \<open>
  \<^verbatim>\<open>if outliers_count > 0: df = df[~mask]\<close>: the variable is bound to a new frame when
  rows are dropped, which is when the frame computed differs from the one held.
\<close>

definition rebind :: "(table \<Rightarrow> error + table) \<Rightarrow> heap \<times> nat \<Rightarrow> error + heap \<times> nat" where
  "rebind f s =
     (case f (fst s ! snd s) of
        Inl e \<Rightarrow> Inl e
      | Inr df \<Rightarrow> Inr (if df = fst s ! snd s then s else alloc (fst s) df))"

definition handle_outliers_obj ::
  "float_ops \<Rightarrow> string \<Rightarrow> real \<Rightarrow> heap \<Rightarrow> nat \<Rightarrow> heap \<times> (error + nat)" where
  "handle_outliers_obj fc method threshold h df =
     (let (h1, df1) = df_copy h df
      in case run_loop (\<lambda>j. rebind (outlier_step fc method threshold j))
                (select_dtypes is_number (h1 ! df1)) (h1, df1) of
           ((h2, df2), None) \<Rightarrow> (h2, Inr df2)
         | ((h2, df2), Some e) \<Rightarrow> (h2, Inl e))"

text \<open>
  An optional step of the pipeline, and \<^verbatim>\<open>DataCleaner.clean_data\<close> on the store: the
  test on the argument, the copy, and the steps, each rebinding \<^verbatim>\<open>cleaned_df\<close>.
\<close>

definition step_obj ::
  "bool \<Rightarrow> (heap \<Rightarrow> nat \<Rightarrow> heap \<times> (error + nat)) \<Rightarrow> heap \<times> (error + nat) \<Rightarrow> heap \<times> (error + nat)" where
  "step_obj enabled f s =
     (case snd s of Inl e \<Rightarrow> s | Inr df \<Rightarrow> if enabled then f (fst s) df else s)"

definition clean_data_obj :: "float_ops \<Rightarrow> heap \<Rightarrow> nat \<Rightarrow> config \<Rightarrow> heap \<times> (error + nat)" where
  "clean_data_obj fc h df cfg =
     (if df_empty (h ! df) then (h, Inl (ValueError ''DataFrame is empty. No data to clean.''))
      else
        let (h1, cleaned_df) = df_copy h df
        in step_obj (remove_outliers cfg)
             (handle_outliers_obj fc (outlier_method cfg) (outlier_threshold cfg))
          (step_obj (optimize_types cfg) (optimize_data_types_obj fc)
          (step_obj (handle_missing cfg) (handle_missing_values_obj fc)
          (step_obj (handle_duplicates_flag cfg) handle_duplicates_obj
          (step_obj (clean_columns cfg) clean_column_names_obj (h1, Inr cleaned_df))))))"

text \<open>What a method may do to the store: create frames, and leave each frame that was there as it was.\<close>

definition extends :: "heap \<Rightarrow> heap \<Rightarrow> bool" where
  "extends h h' = (length h \<le> length h' \<and> take (length h) h' = h)"

text \<open>
  A method computes \<open>f\<close>: from the frame at \<open>df\<close> it either raises what \<open>f\<close> raises or
  returns a frame created during the call that holds what \<open>f\<close> returns, and what was in
  the store stays.
\<close>

definition computes ::
  "(heap \<Rightarrow> nat \<Rightarrow> heap \<times> (error + nat)) \<Rightarrow> (table \<Rightarrow> error + table) \<Rightarrow> bool" where
  "computes m f =
     (\<forall>h df. df < length h \<longrightarrow>
        (case m h df of
           (h', Inl e) \<Rightarrow> extends h h' \<and> f (h ! df) = Inl e
         | (h', Inr r) \<Rightarrow> extends h h' \<and> length h \<le> r \<and> r < length h' \<and> f (h ! df) = Inr (h' ! r)))"

text \<open>The state of the pipeline after some steps agrees with the value computed so far.\<close>

definition agrees :: "heap \<Rightarrow> heap \<times> (error + nat) \<Rightarrow> error + table \<Rightarrow> bool" where
  "agrees h s v =
     (extends h (fst s) \<and>
      (case snd s of
         Inl e \<Rightarrow> v = Inl e
       | Inr r \<Rightarrow> length h \<le> r \<and> r < length (fst s) \<and> v = Inr (fst s ! r)))"

section \<open>Reading an upload (utils/file\_handler.py)\<close>




section \<open>The live server (exports/live\_server.py)\<close>

text \<open>
  The port loop of \<^verbatim>\<open>serve_dashboard_live\<close>. The network is what
  \<^verbatim>\<open>socketserver.TCPServer(("", port), handler)\<close> does for each port: it binds, or raises
  \<^verbatim>\<open>OSError\<close> with an error number. The call ends serving at a port (until interrupted),
  with a message shown by \<^verbatim>\<open>st.error\<close>, or with the \<^verbatim>\<open>OSError\<close> raised to the caller.
\<close>

datatype bind_result = Bound | OSError nat

datatype served = Serving nat | Reported string | Raised nat

definition max_attempts :: nat where
  "max_attempts = 10"

fun try_ports :: "(nat \<Rightarrow> bind_result) \<Rightarrow> nat \<Rightarrow> nat list \<Rightarrow> served" where
  "try_ports net port [] = Reported ''Could not start server - no available ports found.''"
| "try_ports net port (attempt # rest) =
     (case net port of
        Bound \<Rightarrow> Serving port
      | OSError errno \<Rightarrow>
          if errno = 48 then
            (if attempt = max_attempts - 1
             then Reported ''Could not find an available port after 10 attempts. Please close some applications and try again.''
             else try_ports net (port + 1) rest)
          else Raised errno)"

definition serve_dashboard_live :: "(nat \<Rightarrow> bind_result) \<Rightarrow> served" where
  "serve_dashboard_live net = try_ports net 8000 [0..<max_attempts]"

section \<open>Column-name normalization\<close>

lemma of_char_lt: "(of_char c :: nat) < 256"
  by (metis of_char_mod_256 mod_less_divisor zero_less_numeral)
lemma py_lower_char_idem: "py_lower_char (py_lower_char c) = py_lower_char c"
  using of_char_lt[of c] 
  by (auto simp: py_lower_char_def Let_def)
lemma py_isspace_lower: "py_isspace (py_lower_char c) = py_isspace c"
  using of_char_lt[of c] 
  by (auto simp: py_lower_char_def py_isspace_def Let_def)

lemma normalize_name_map: "normalize_name s = map norm_char (strip s)"
  by (auto simp: normalize_name_def replace_def lower_def norm_char_def Let_def)

lemma lower_underscore: "py_lower_char CHR ''_'' = CHR ''_''"
  by (simp add: py_lower_char_def)

lemma norm_char_idem: "norm_char (norm_char c) = norm_char c"
  by (simp add: norm_char_def Let_def py_lower_char_idem lower_underscore)

lemma norm_char_not_space: "\<not> py_isspace c \<Longrightarrow> \<not> py_isspace (norm_char c)"
proof -
  have "\<not> py_isspace CHR ''_''" by code_simp
  then show "\<not> py_isspace c \<Longrightarrow> \<not> py_isspace (norm_char c)"
    by (auto simp: norm_char_def Let_def py_isspace_lower)
qed

lemma strip_ends:
  "strip s = [] \<or> (\<not> py_isspace (hd (strip s)) \<and> \<not> py_isspace (last (strip s)))"
proof (cases "strip s = []")
  case True
  then show ?thesis by simp
next
  case False
  define a where "a = dropWhile py_isspace s"
  define b where "b = dropWhile py_isspace (rev a)"
  have sb: "strip s = rev b" by (simp add: strip_def a_def b_def)
  with False have bne: "b \<noteq> []" by simp
  then have "\<not> py_isspace (hd b)" unfolding b_def by (rule hd_dropWhile)
  then have l: "\<not> py_isspace (last (strip s))" using bne by (simp add: sb last_rev)
  have "rev a = takeWhile py_isspace (rev a) @ b" by (simp add: b_def)
  then have "last (rev a) = last b" using bne by (metis last_appendR)
  moreover have ane: "a \<noteq> []" using bne b_def by auto
  ultimately have "last b = hd a" by (simp add: last_rev)
  moreover have "\<not> py_isspace (hd a)" using ane unfolding a_def by (rule hd_dropWhile)
  ultimately have "\<not> py_isspace (hd (strip s))" using bne by (simp add: sb hd_rev)
  with l show ?thesis by simp
qed

lemma strip_fixed:
  assumes "t = [] \<or> (\<not> py_isspace (hd t) \<and> \<not> py_isspace (last t))"
  shows "strip t = t"
proof (cases "t = []")
  case True
  then show ?thesis by (simp add: strip_def)
next
  case False
  with assms have h: "\<not> py_isspace (hd t)" and l: "\<not> py_isspace (last t)" by auto
  from False h have "dropWhile py_isspace t = t" by (cases t) auto
  moreover from False l have "dropWhile py_isspace (rev t) = rev t"
    by (cases "rev t") (auto simp: last_rev hd_rev dest: arg_cong[where f=hd])
  ultimately show ?thesis by (simp add: strip_def)
qed

lemma strip_normalize_name: "strip (normalize_name s) = normalize_name s"
proof (rule strip_fixed)
  show "normalize_name s = [] \<or>
    (\<not> py_isspace (hd (normalize_name s)) \<and> \<not> py_isspace (last (normalize_name s)))"
    using strip_ends[of s]
    by (auto simp: normalize_name_map hd_map last_map norm_char_not_space)
qed

lemma normalize_name_idempotent: "normalize_name (normalize_name s) = normalize_name s"
proof -
  have "normalize_name (normalize_name s) = map norm_char (normalize_name s)"
    by (simp add: normalize_name_map[of "normalize_name s"] strip_normalize_name)
  also have "\<dots> = normalize_name s"
    by (simp add: normalize_name_map[of s] norm_char_idem)
  finally show ?thesis .
qed

lemma clean_label_idem: "clean_label c = Inr c' \<Longrightarrow> clean_label c' = Inr c'"
  by (cases c) (auto simp: normalize_name_idempotent)

lemma clean_labels_idem: "clean_labels cs = Inr cs' \<Longrightarrow> clean_labels cs' = Inr cs'"
proof (induction cs arbitrary: cs')
  case Nil
  then show ?case by simp
next
  case (Cons c cs)
  obtain col d where c: "c = (col, d)" by (cases c)
  from Cons.prems c obtain col' rest where
    "clean_label col = Inr col'" "clean_labels cs = Inr rest" "cs' = (col', d) # rest"
    by (auto split: sum.splits)
  with Cons.IH[of rest] show ?case by (simp add: clean_label_idem)
qed

text \<open>
  Claim C7. Normalizing a column name twice gives the same name as normalizing it once,
  and so \<^verbatim>\<open>_clean_column_names\<close> applied to its own result returns that result.
\<close>

theorem clean_column_names_idempotent:
  "normalize_name (normalize_name col) = normalize_name col \<and>
   (clean_column_names df = Inr df' \<longrightarrow> clean_column_names df' = Inr df')"
  by (auto simp: normalize_name_idempotent clean_column_names_def split: sum.splits
           dest: clean_labels_idem)

theorem clean_column_names_idempotent_witness:
  "clean_column_names
     \<lparr>columns = [(SName '' Product Name'', Object), (SName ''Sales-Amount '', Float64)],
      rows = [(0, [StrV ''pen'', FloatV 2.5])]\<rparr>
   = Inr \<lparr>columns = [(SName ''product_name'', Object), (SName ''sales_amount'', Float64)],
          rows = [(0, [StrV ''pen'', FloatV 2.5])]\<rparr>
   \<and> clean_column_names
     \<lparr>columns = [(SName ''product_name'', Object), (SName ''sales_amount'', Float64)],
      rows = [(0, [StrV ''pen'', FloatV 2.5])]\<rparr>
   = Inr \<lparr>columns = [(SName ''product_name'', Object), (SName ''sales_amount'', Float64)],
          rows = [(0, [StrV ''pen'', FloatV 2.5])]\<rparr>"
proof -
  have h: "clean_column_names
     \<lparr>columns = [(SName '' Product Name'', Object), (SName ''Sales-Amount '', Float64)],
      rows = [(0, [StrV ''pen'', FloatV 2.5])]\<rparr>
   = Inr \<lparr>columns = [(SName ''product_name'', Object), (SName ''sales_amount'', Float64)],
          rows = [(0, [StrV ''pen'', FloatV 2.5])]\<rparr>"
    by code_simp
  with clean_column_names_idempotent show ?thesis by blast
qed

section \<open>Integer downcasting\<close>

lemma minimum_Some: "xs \<noteq> [] \<Longrightarrow> minimum xs = Some (Min (set xs))"
proof (cases xs)
  case Nil
  then show "xs \<noteq> [] \<Longrightarrow> ?thesis" by simp
next
  case (Cons x ys)
  have "fold min ys x = Min (set (x # ys))" by (rule Min.set_eq_fold[symmetric])
  with Cons show ?thesis by (simp add: minimum_def)
qed

lemma maximum_Some: "xs \<noteq> [] \<Longrightarrow> maximum xs = Some (Max (set xs))"
proof (cases xs)
  case Nil
  then show "xs \<noteq> [] \<Longrightarrow> ?thesis" by simp
next
  case (Cons x ys)
  have "fold max ys x = Max (set (x # ys))" by (rule Max.set_eq_fold[symmetric])
  with Cons show ?thesis by (simp add: maximum_def)
qed

lemma strictly_inside_minmax:
  assumes "ints cs \<noteq> []"
  shows "strictly_inside w cs \<longleftrightarrow>
     iinfo_min w < Min (set (ints cs)) \<and> Max (set (ints cs)) < iinfo_max w"
  using assms by (auto simp: strictly_inside_def)

lemma wrap_id: "0 < w \<Longrightarrow> iinfo_min w \<le> v \<Longrightarrow> v \<le> iinfo_max w \<Longrightarrow> wrap w v = v"
proof -
  assume w: "0 < w" and lo: "iinfo_min w \<le> v" and hi: "v \<le> iinfo_max w"
  have p: "(2::int) ^ w = 2 * 2 ^ (w - 1)" using w by (cases w) simp_all
  have "0 \<le> v + 2 ^ (w - 1)" using lo by (simp add: iinfo_min_def)
  moreover have "v + 2 ^ (w - 1) < 2 ^ w" using hi p by (simp add: iinfo_max_def)
  ultimately have "(v + 2 ^ (w - 1)) mod 2 ^ w = v + 2 ^ (w - 1)" by simp
  then show ?thesis by (simp add: wrap_def)
qed

lemma in_ints: "IntV v \<in> set cs \<Longrightarrow> v \<in> set (ints cs)"
  by (induction cs) (auto simp: ints_def split: cell.splits)

lemma astype_int_inside:
  assumes "0 < w" and "strictly_inside w cs"
  shows "map (astype_int w) cs = cs"
proof -
  have "astype_int w c = c" if "c \<in> set cs" for c
  proof (cases c)
    case (IntV v)
    with that have "v \<in> set (ints cs)" by (simp add: in_ints)
    with assms(2) have "iinfo_min w \<le> v" "v \<le> iinfo_max w"
      by (auto simp: strictly_inside_def)
    with assms(1) IntV show ?thesis by (simp add: astype_int_def wrap_id)
  qed (simp_all add: astype_int_def)
  then show ?thesis by (simp add: map_idI)
qed

lemma downcast_int_tiers:
  assumes "ints cs \<noteq> []"
  shows "downcast_int cs =
     (if strictly_inside 8 cs then Some (Int8, cs)
      else if strictly_inside 16 cs then Some (Int16, cs)
      else if strictly_inside 32 cs then Some (Int32, cs)
      else None)"
proof -
  have t: "(iinfo_min w < Min (set (ints cs)) \<and> Max (set (ints cs)) < iinfo_max w)
      = strictly_inside w cs" for w
    using strictly_inside_minmax[OF assms, of w] by simp
  have "downcast_int cs =
     (if strictly_inside 8 cs then Some (Int8, map (astype_int 8) cs)
      else if strictly_inside 16 cs then Some (Int16, map (astype_int 16) cs)
      else if strictly_inside 32 cs then Some (Int32, map (astype_int 32) cs)
      else None)"
    unfolding downcast_int_def minimum_Some[OF assms] maximum_Some[OF assms]
    by (simp only: t option.case prod.case)
  then show ?thesis by (simp add: astype_int_inside)
qed

lemma update_cell_at: "r[j := cell_at r j] = r"
  by (simp add: cell_at_def list_update_beyond)

lemma set_col_same_cells:
  "set_col df j d (col_cells df j) = df\<lparr>columns := (columns df)[j := (fst (columns df ! j), d)]\<rparr>"
proof -
  have "map (\<lambda>(row, v). (fst row, (snd row)[j := v])) (zip xs (map (\<lambda>row. cell_at (snd row) j) xs)) = xs"
    for xs :: "(nat \<times> cell list) list"
    by (induction xs) (simp_all add: update_cell_at)
  then show ?thesis by (simp add: set_col_def col_cells_def)
qed

text \<open>One iteration on an \<^verbatim>\<open>int64\<close> column changes nothing but the dtype of that column.\<close>

lemma optimize_numeric_int64_frame:
  assumes "unique_label df j" and "col_dtype df j = Int64" and "ints (col_cells df j) \<noteq> []"
  shows "optimize_numeric fc j df =
     Inr (df\<lparr>columns := (columns df)[j := (fst (columns df ! j),
            if strictly_inside 8 (col_cells df j) then Int8
            else if strictly_inside 16 (col_cells df j) then Int16
            else if strictly_inside 32 (col_cells df j) then Int32
            else Int64)]\<rparr>)"
proof -
  have "(fst (columns df ! j), Int64) = columns df ! j"
    using assms(2) by (simp add: col_dtype_def prod_eq_iff)
  then have "df\<lparr>columns := (columns df)[j := (fst (columns df ! j), Int64)]\<rparr> = df"
    by simp
  then show ?thesis
    using assms by (simp add: optimize_numeric_def Let_def downcast_int_tiers set_col_same_cells)
qed

text \<open>
  Claim C5 as stated fails: 127 is a value of the signed 8-bit type, yet a column holding
  only 127 is cast to 16 bits, because the tests compare with \<^verbatim>\<open><\<close> and \<^verbatim>\<open>>\<close>.
\<close>

theorem downcast_not_smallest_counterexample:
  "iinfo_min 8 \<le> 127 \<and> 127 \<le> iinfo_max 8
   \<and> downcast_int [IntV 127] = Some (Int16, [IntV 127])"
  by code_simp

section \<open>Shape of the cleaned frame and the empty-input error\<close>

lemma for_each_rel:
  assumes refl: "\<And>s. R s s"
    and trans: "\<And>a b c. R a b \<Longrightarrow> R b c \<Longrightarrow> R a c"
    and body: "\<And>x s s'. body x s = Inr s' \<Longrightarrow> R s s'"
  shows "for_each body xs s = Inr s' \<Longrightarrow> R s s'"
proof (induction xs arbitrary: s)
  case Nil
  then show ?case by (simp add: refl)
next
  case (Cons x xs)
  then obtain m where m: "body x s = Inr m" and r: "for_each body xs m = Inr s'"
    by (auto split: sum.splits)
  from body[OF m] Cons.IH[OF r] show ?case by (rule trans)
qed

lemma for_each_error:
  "for_each body xs s = Inl e \<Longrightarrow> \<exists>x s'. body x s' = Inl e"
proof (induction xs arbitrary: s)
  case Nil
  then show ?case by simp
next
  case (Cons x xs)
  then show ?case by (cases "body x s") auto
qed

lemma length_col_cells: "length (col_cells df j) = length (rows df)"
  by (simp add: col_cells_def)

lemma length_fillna: "length (fillna v cs) = length cs"
  by (simp add: fillna_def)

lemma length_ffill: "length (ffill p cs) = length cs"
  by (induction cs arbitrary: p) auto

lemma map_fst_update_same: "map fst (xs[j := (fst (xs ! j), d)]) = map fst xs"
  by (induction xs arbitrary: j) (auto split: nat.splits)

lemma labels_set_col: "map fst (columns (set_col df j d vs)) = map fst (columns df)"
  by (simp add: set_col_def map_fst_update_same)

lemma length_columns_set_col: "length (columns (set_col df j d vs)) = length (columns df)"
  by (simp add: set_col_def)

lemma index_set_col:
  "length vs = length (rows df) \<Longrightarrow> map fst (rows (set_col df j d vs)) = map fst (rows df)"
proof -
  assume l: "length vs = length (rows df)"
  have "map fst (rows (set_col df j d vs)) = map (\<lambda>p. fst (fst p)) (zip (rows df) vs)"
    by (simp add: set_col_def case_prod_unfold comp_def)
  also have "\<dots> = map fst (map fst (zip (rows df) vs))" by (simp add: comp_def)
  also have "\<dots> = map fst (rows df)" using l by simp
  finally show ?thesis .
qed

lemma same_frame_refl: "same_frame df df"
  by (simp add: same_frame_def)

lemma same_frame_trans: "same_frame a b \<Longrightarrow> same_frame b c \<Longrightarrow> same_frame a c"
  by (simp add: same_frame_def)

lemma same_frame_set_col: "length vs = length (rows df) \<Longrightarrow> same_frame df (set_col df j d vs)"
  by (simp add: same_frame_def labels_set_col index_set_col)

lemma fill_missing_frame: "fill_missing fc j df = Inr out \<Longrightarrow> same_frame df out"
  by (auto simp: fill_missing_def Let_def same_frame_set_col length_col_cells length_fillna
      length_ffill split: if_splits option.splits)

lemma handle_missing_values_frame: "handle_missing_values fc df = Inr out \<Longrightarrow> same_frame df out"
  unfolding handle_missing_values_def
  by (rule for_each_rel[where R=same_frame and body="fill_missing fc"])
     (auto intro: same_frame_refl same_frame_trans fill_missing_frame)

lemma downcast_int_length: "downcast_int cs = Some (d, vs) \<Longrightarrow> length vs = length cs"
  by (auto simp: downcast_int_def split: option.splits if_splits)

lemma downcast_float_length: "downcast_float fc cs = Some (d, vs) \<Longrightarrow> length vs = length cs"
  by (auto simp: downcast_float_def split: option.splits if_splits)

lemma optimize_numeric_frame: "optimize_numeric fc j df = Inr out \<Longrightarrow> same_frame df out"
  by (auto simp: optimize_numeric_def Let_def same_frame_set_col length_col_cells same_frame_refl
      dest: downcast_int_length downcast_float_length split: if_splits option.splits)

lemma optimize_object_frame: "optimize_object j df = Inr out \<Longrightarrow> same_frame df out"
  by (auto simp: optimize_object_def Let_def same_frame_set_col length_col_cells same_frame_refl
      split: if_splits)

lemma optimize_data_types_frame:
  assumes "optimize_data_types fc df = Inr out"
  shows "same_frame df out"
proof -
  from assms obtain df1 where
    a: "for_each (optimize_numeric fc) (select_dtypes (\<lambda>d. d = Int64 \<or> d = Float64) df) df = Inr df1"
    and b: "for_each optimize_object (select_dtypes (\<lambda>d. d = Object) df1) df1 = Inr out"
    by (auto simp: optimize_data_types_def split: sum.splits)
  have "same_frame df df1"
    by (rule for_each_rel[where R=same_frame, OF _ _ _ a])
       (auto intro: same_frame_refl same_frame_trans optimize_numeric_frame)
  moreover have "same_frame df1 out"
    by (rule for_each_rel[where R=same_frame, OF _ _ _ b])
       (auto intro: same_frame_refl same_frame_trans optimize_object_frame)
  ultimately show ?thesis by (rule same_frame_trans)
qed

lemma sub_frame_refl: "sub_frame df df"
  by (simp add: sub_frame_def)

lemma sub_frame_trans: "sub_frame a b \<Longrightarrow> sub_frame b c \<Longrightarrow> sub_frame a c"
  by (auto simp: sub_frame_def)

lemma drop_masked_sub: "sub_frame df (drop_masked p j df)"
  by (auto simp: drop_masked_def sub_frame_def Let_def)

lemma outlier_step_sub: "outlier_step fc method k j df = Inr out \<Longrightarrow> sub_frame df out"
  by (auto simp: outlier_step_def drop_masked_sub sub_frame_refl split: if_splits)

lemma handle_outliers_sub: "handle_outliers fc method k df = Inr out \<Longrightarrow> sub_frame df out"
  unfolding handle_outliers_def
  by (rule for_each_rel[where R=sub_frame and body="outlier_step fc method k"])
     (auto intro: sub_frame_refl sub_frame_trans outlier_step_sub)

lemma dedup_fold:
  "length (fold (\<lambda>row kept. if snd row \<in> set (map snd kept) then kept else kept @ [row]) xs acc)
     \<le> length acc + length xs"
proof (induction xs arbitrary: acc)
  case Nil
  then show ?case by simp
next
  case (Cons x xs)
  show ?case
  proof (cases "snd x \<in> set (map snd acc)")
    case True
    with Cons.IH[of acc] show ?thesis by simp
  next
    case False
    with Cons.IH[of "acc @ [x]"] show ?thesis by simp
  qed
qed

lemma drop_duplicates_length: "length (rows (drop_duplicates df)) \<le> length (rows df)"
  using dedup_fold[of "rows df" "[]"] by (simp add: drop_duplicates_def)

lemma drop_duplicates_columns: "columns (drop_duplicates df) = columns df"
  by (simp add: drop_duplicates_def)

lemma drop_duplicates_rows: "rows df = rows df' \<Longrightarrow> rows (drop_duplicates df) = rows (drop_duplicates df')"
  by (simp add: drop_duplicates_def)

lemma clean_labels_map:
  "clean_labels cs = Inr cs' \<Longrightarrow> map (\<lambda>c. clean_label (fst c)) cs = map (\<lambda>c. Inr (fst c)) cs'"
proof (induction cs arbitrary: cs')
  case Nil
  then show ?case by simp
next
  case (Cons c cs)
  obtain col d where c: "c = (col, d)" by (cases c)
  from Cons.prems c obtain col' rest where
    "clean_label col = Inr col'" "clean_labels cs = Inr rest" "cs' = (col', d) # rest"
    by (auto split: sum.splits)
  with Cons.IH[of rest] c show ?case by simp
qed

lemma clean_column_names_rows: "clean_column_names df = Inr out \<Longrightarrow> rows out = rows df"
  by (auto simp: clean_column_names_def split: sum.splits)

lemma clean_column_names_labels:
  "clean_column_names df = Inr out \<Longrightarrow>
   map (\<lambda>c. clean_label (fst c)) (columns df) = map (\<lambda>c. Inr (fst c)) (columns out)"
  by (auto simp: clean_column_names_def split: sum.splits dest: clean_labels_map)

lemma step_Inr:
  "step b f r = Inr out \<Longrightarrow> \<exists>mid. r = Inr mid \<and> (if b then f mid = Inr out else out = mid)"
  by (auto simp: step_def split: sum.splits if_splits)

lemma step_Inl:
  "step b f r = Inl e \<Longrightarrow> r = Inl e \<or> (\<exists>mid. r = Inr mid \<and> b \<and> f mid = Inl e)"
  by (auto simp: step_def split: sum.splits if_splits)

text \<open>
  Claim C1. A frame returned by \<^verbatim>\<open>clean_data\<close> has at most as many rows as the input and
  as many columns; its labels are the input's, each one normalized when
  \<^verbatim>\<open>clean_columns\<close> is set; and with \<^verbatim>\<open>remove_outliers\<close> off its index is the index
  left by the removal of duplicates (the input's index when that step is off too), so no
  row is lost to the outlier step.
\<close>

theorem clean_data_shape:
  assumes "clean_data fc df cfg = Inr out"
  shows "length (rows out) \<le> length (rows df)
    \<and> length (columns out) = length (columns df)
    \<and> (if clean_columns cfg
        then map (\<lambda>c. Inr (fst c)) (columns out) = map (\<lambda>c. clean_label (fst c)) (columns df)
        else map fst (columns out) = map fst (columns df))
    \<and> (\<not> remove_outliers cfg \<longrightarrow>
         map fst (rows out) =
         map fst (rows (if handle_duplicates_flag cfg then handle_duplicates df else df)))"
proof -
  from assms have ne: "\<not> df_empty df" by (auto simp: clean_data_def split: if_splits)
  with assms have s5: "step (remove_outliers cfg)
       (handle_outliers fc (outlier_method cfg) (outlier_threshold cfg))
       (step (optimize_types cfg) (optimize_data_types fc)
       (step (handle_missing cfg) (handle_missing_values fc)
       (step (handle_duplicates_flag cfg) (\<lambda>d. Inr (handle_duplicates d))
       (step (clean_columns cfg) clean_column_names (Inr df))))) = Inr out"
    by (simp add: clean_data_def)
  from step_Inr[OF s5] obtain d4 where
    s4: "step (optimize_types cfg) (optimize_data_types fc)
       (step (handle_missing cfg) (handle_missing_values fc)
       (step (handle_duplicates_flag cfg) (\<lambda>d. Inr (handle_duplicates d))
       (step (clean_columns cfg) clean_column_names (Inr df)))) = Inr d4"
    and o: "if remove_outliers cfg
        then handle_outliers fc (outlier_method cfg) (outlier_threshold cfg) d4 = Inr out
        else out = d4"
    by blast
  from step_Inr[OF s4] obtain d3 where
    s3: "step (handle_missing cfg) (handle_missing_values fc)
       (step (handle_duplicates_flag cfg) (\<lambda>d. Inr (handle_duplicates d))
       (step (clean_columns cfg) clean_column_names (Inr df))) = Inr d3"
    and t: "if optimize_types cfg then optimize_data_types fc d3 = Inr d4 else d4 = d3"
    by blast
  from step_Inr[OF s3] obtain d2 where
    s2: "step (handle_duplicates_flag cfg) (\<lambda>d. Inr (handle_duplicates d))
       (step (clean_columns cfg) clean_column_names (Inr df)) = Inr d2"
    and m: "if handle_missing cfg then handle_missing_values fc d2 = Inr d3 else d3 = d2"
    by blast
  from step_Inr[OF s2] obtain d1 where
    s1: "step (clean_columns cfg) clean_column_names (Inr df) = Inr d1"
    and d: "if handle_duplicates_flag cfg then Inr (handle_duplicates d1) = (Inr d2 :: error + table) else d2 = d1"
    by blast
  from step_Inr[OF s1] have c: "if clean_columns cfg then clean_column_names df = Inr d1 else d1 = df"
    by simp
  have r1: "rows d1 = rows df"
    using c by (auto split: if_splits dest: clean_column_names_rows)
  have l1: "if clean_columns cfg
        then map (\<lambda>c. Inr (fst c)) (columns d1) = map (\<lambda>c. clean_label (fst c)) (columns df)
        else map fst (columns d1) = map fst (columns df)"
    using c by (auto split: if_splits dest: clean_column_names_labels)
  have c2: "columns d2 = columns d1"
    using d by (auto simp: handle_duplicates_def drop_duplicates_columns split: if_splits)
  have r2: "rows d2 = rows (if handle_duplicates_flag cfg then handle_duplicates df else df)"
    using d r1 by (auto simp: handle_duplicates_def split: if_splits dest: drop_duplicates_rows)
  have n2: "length (rows d2) \<le> length (rows df)"
    using r2 by (simp add: handle_duplicates_def drop_duplicates_length)
  have f3: "same_frame d2 d3"
    using m by (auto split: if_splits intro: same_frame_refl handle_missing_values_frame)
  have f4: "same_frame d3 d4"
    using t by (auto split: if_splits intro: same_frame_refl optimize_data_types_frame)
  have f24: "same_frame d2 d4" using f3 f4 by (rule same_frame_trans)
  have f5: "sub_frame d4 out"
    using o by (auto split: if_splits intro: sub_frame_refl handle_outliers_sub)
  have lab: "map fst (columns out) = map fst (columns d1)"
    using f24 f5 c2 by (simp add: same_frame_def sub_frame_def)
  have "length (rows out) \<le> length (rows d4)" using f5 by (simp add: sub_frame_def)
  also have "length (rows d4) = length (rows d2)"
    using f24 by (auto simp: same_frame_def dest: arg_cong[where f=length])
  finally have A: "length (rows out) \<le> length (rows df)" using n2 by simp
  have "length (columns d1) = length (columns df)"
  proof (cases "clean_columns cfg")
    case True
    with l1 have "length (map (\<lambda>c. Inr (fst c) :: error + colname) (columns d1))
        = length (map (\<lambda>c. clean_label (fst c)) (columns df))" by simp
    then show ?thesis by simp
  next
    case False
    with l1 have "length (map fst (columns d1)) = length (map fst (columns df))" by simp
    then show ?thesis by simp
  qed
  moreover from lab have "length (map fst (columns out)) = length (map fst (columns d1))"
    by simp
  ultimately have B: "length (columns out) = length (columns df)" by simp
  have C: "if clean_columns cfg
        then map (\<lambda>c. Inr (fst c)) (columns out) = map (\<lambda>c. clean_label (fst c)) (columns df)
        else map fst (columns out) = map fst (columns df)"
  proof (cases "clean_columns cfg")
    case True
    have "map (\<lambda>c. Inr (fst c) :: error + colname) (columns out)
        = map Inr (map fst (columns out))" by simp
    also have "\<dots> = map Inr (map fst (columns d1))" by (simp only: lab)
    also have "\<dots> = map (\<lambda>c. Inr (fst c)) (columns d1)" by simp
    finally show ?thesis using True l1 by simp
  next
    case False
    then show ?thesis using lab l1 by simp
  qed
  have D: "\<not> remove_outliers cfg \<longrightarrow>
         map fst (rows out) =
         map fst (rows (if handle_duplicates_flag cfg then handle_duplicates df else df))"
  proof
    assume "\<not> remove_outliers cfg"
    with o have "out = d4" by simp
    with f24 have "map fst (rows out) = map fst (rows d2)" by (simp add: same_frame_def)
    with r2 show "map fst (rows out) =
         map fst (rows (if handle_duplicates_flag cfg then handle_duplicates df else df))"
      by simp
  qed
  from A B C D show ?thesis by blast
qed

lemma clean_labels_error: "clean_labels cs = Inl e \<Longrightarrow> e = AttributeError ''strip''"
proof (induction cs)
  case Nil
  then show ?case by simp
next
  case (Cons c cs)
  obtain col d where c: "c = (col, d)" by (cases c)
  show ?case
  proof (cases col)
    case (SName x)
    with Cons c show ?thesis by (auto split: sum.splits)
  next
    case (OName n)
    with Cons c show ?thesis by simp
  qed
qed

lemma clean_column_names_error: "clean_column_names df = Inl e \<Longrightarrow> e \<in> step_errors"
  by (auto simp: clean_column_names_def step_errors_def split: sum.splits dest: clean_labels_error)

lemma fill_missing_error: "fill_missing fc j df = Inl e \<Longrightarrow> e \<in> step_errors"
  by (auto simp: fill_missing_def step_errors_def Let_def split: if_splits option.splits)

lemma handle_missing_values_error: "handle_missing_values fc df = Inl e \<Longrightarrow> e \<in> step_errors"
  by (auto simp: handle_missing_values_def dest!: for_each_error fill_missing_error)

lemma optimize_numeric_error: "optimize_numeric fc j df = Inl e \<Longrightarrow> e \<in> step_errors"
  by (auto simp: optimize_numeric_def step_errors_def Let_def split: if_splits option.splits)

lemma optimize_object_error: "optimize_object j df = Inl e \<Longrightarrow> e \<in> step_errors"
  by (auto simp: optimize_object_def step_errors_def Let_def split: if_splits)

lemma optimize_data_types_error: "optimize_data_types fc df = Inl e \<Longrightarrow> e \<in> step_errors"
  by (auto simp: optimize_data_types_def split: sum.splits
      dest!: for_each_error optimize_numeric_error optimize_object_error)

lemma outlier_step_error: "outlier_step fc method k j df = Inl e \<Longrightarrow> e \<in> step_errors"
  by (auto simp: outlier_step_def step_errors_def split: if_splits)

lemma handle_outliers_error: "handle_outliers fc method k df = Inl e \<Longrightarrow> e \<in> step_errors"
  by (auto simp: handle_outliers_def dest!: for_each_error outlier_step_error)

lemma empty_error_not_step: "ValueError ''DataFrame is empty. No data to clean.'' \<notin> step_errors"
  by (simp add: step_errors_def)

lemma pipeline_error:
  assumes "step (remove_outliers cfg)
       (handle_outliers fc (outlier_method cfg) (outlier_threshold cfg))
       (step (optimize_types cfg) (optimize_data_types fc)
       (step (handle_missing cfg) (handle_missing_values fc)
       (step (handle_duplicates_flag cfg) (\<lambda>d. Inr (handle_duplicates d))
       (step (clean_columns cfg) clean_column_names (Inr df))))) = Inl e"
  shows "e \<in> step_errors"
proof -
  from step_Inl[OF assms] show ?thesis
  proof
    assume a4: "step (optimize_types cfg) (optimize_data_types fc)
       (step (handle_missing cfg) (handle_missing_values fc)
       (step (handle_duplicates_flag cfg) (\<lambda>d. Inr (handle_duplicates d))
       (step (clean_columns cfg) clean_column_names (Inr df)))) = Inl e"
    from step_Inl[OF a4] show ?thesis
    proof
      assume a3: "step (handle_missing cfg) (handle_missing_values fc)
       (step (handle_duplicates_flag cfg) (\<lambda>d. Inr (handle_duplicates d))
       (step (clean_columns cfg) clean_column_names (Inr df))) = Inl e"
      from step_Inl[OF a3] show ?thesis
      proof
        assume a2: "step (handle_duplicates_flag cfg) (\<lambda>d. Inr (handle_duplicates d))
          (step (clean_columns cfg) clean_column_names (Inr df)) = Inl e"
        from step_Inl[OF a2] have "step (clean_columns cfg) clean_column_names (Inr df) = Inl e"
          by auto
        from step_Inl[OF this] show ?thesis by (auto dest: clean_column_names_error)
      next
        assume "\<exists>mid. step (handle_duplicates_flag cfg) (\<lambda>d. Inr (handle_duplicates d))
          (step (clean_columns cfg) clean_column_names (Inr df)) = Inr mid
          \<and> handle_missing cfg \<and> handle_missing_values fc mid = Inl e"
        then show ?thesis by (auto dest: handle_missing_values_error)
      qed
    next
      assume "\<exists>mid. step (handle_missing cfg) (handle_missing_values fc)
       (step (handle_duplicates_flag cfg) (\<lambda>d. Inr (handle_duplicates d))
       (step (clean_columns cfg) clean_column_names (Inr df))) = Inr mid
        \<and> optimize_types cfg \<and> optimize_data_types fc mid = Inl e"
      then show ?thesis by (auto dest: optimize_data_types_error)
    qed
  next
    assume "\<exists>mid. step (optimize_types cfg) (optimize_data_types fc)
       (step (handle_missing cfg) (handle_missing_values fc)
       (step (handle_duplicates_flag cfg) (\<lambda>d. Inr (handle_duplicates d))
       (step (clean_columns cfg) clean_column_names (Inr df)))) = Inr mid
       \<and> remove_outliers cfg
       \<and> handle_outliers fc (outlier_method cfg) (outlier_threshold cfg) mid = Inl e"
    then show ?thesis by (auto dest: handle_outliers_error)
  qed
qed

text \<open>
  Claim C3, as the code has it. \<^verbatim>\<open>clean_data\<close> raises the empty-input error exactly
  when \<^verbatim>\<open>df.empty\<close> holds at entry: when the frame has no row or has no column.
\<close>

theorem clean_data_empty_error:
  "clean_data fc df cfg = Inl (ValueError ''DataFrame is empty. No data to clean.'')
   \<longleftrightarrow> length (rows df) = 0 \<or> length (columns df) = 0"
proof (cases "df_empty df")
  case True
  then show ?thesis by (simp add: clean_data_def df_empty_def)
next
  case False
  have "clean_data fc df cfg \<noteq> Inl (ValueError ''DataFrame is empty. No data to clean.'')"
  proof
    assume "clean_data fc df cfg = Inl (ValueError ''DataFrame is empty. No data to clean.'')"
    with False have "ValueError ''DataFrame is empty. No data to clean.'' \<in> step_errors"
      by (auto simp: clean_data_def intro: pipeline_error)
    with empty_error_not_step show False by simp
  qed
  with False show ?thesis by (simp add: df_empty_def)
qed

text \<open>
  Claim C3 as stated fails: a frame with one row and no column is refused as empty.
\<close>

theorem clean_data_empty_counterexample:
  "length (rows \<lparr>columns = [], rows = [(0, [])]\<rparr>) = 1
   \<and> clean_data exact_ops \<lparr>columns = [], rows = [(0, [])]\<rparr> default_config
     = Inl (ValueError ''DataFrame is empty. No data to clean.'')"
  by (simp add: clean_data_def df_empty_def)

theorem clean_data_shape_witness:
  "clean_data exact_ops sales_frame default_config =
     Inr \<lparr>columns = [(SName ''product_name'', Object), (SName ''sales_amount'', Int16),
                     (SName ''region'', Object)],
          rows = [(0, [StrV ''pen'', IntV 10, StrV ''East'']),
                  (2, [StrV ''ink'', IntV 300, StrV ''West''])]\<rparr>
   \<and> length [(0::nat, [StrV ''pen'', IntV 10, StrV ''East'']),
              (2, [StrV ''ink'', IntV 300, StrV ''West''])] \<le> length (rows sales_frame)
   \<and> map fst [(0::nat, [StrV ''pen'', IntV 10, StrV ''East'']),
              (2, [StrV ''ink'', IntV 300, StrV ''West''])]
       = map fst (rows (handle_duplicates sales_frame))"
proof -
  have h: "clean_data exact_ops sales_frame default_config =
     Inr \<lparr>columns = [(SName ''product_name'', Object), (SName ''sales_amount'', Int16),
                     (SName ''region'', Object)],
          rows = [(0, [StrV ''pen'', IntV 10, StrV ''East'']),
                  (2, [StrV ''ink'', IntV 300, StrV ''West''])]\<rparr>"
    by code_simp
  from clean_data_shape[OF h] h show ?thesis by (simp add: default_config_def)
qed

section \<open>Outlier removal by interquartile range\<close>

lemma for_each_append:
  "for_each body (xs @ ys) s =
     (case for_each body xs s of Inl e \<Rightarrow> Inl e | Inr s' \<Rightarrow> for_each body ys s')"
  by (induction xs arbitrary: s) (auto split: sum.splits)






section \<open>The input frame is left as it was\<close>

lemma extends_refl: "extends h h"
  by (simp add: extends_def)

lemma extends_trans: "extends a b \<Longrightarrow> extends b c \<Longrightarrow> extends a c"
proof -
  assume ab: "extends a b" and bc: "extends b c"
  then have l: "length a \<le> length b" "length b \<le> length c" by (auto simp: extends_def)
  have "take (length a) c = take (length a) (take (length b) c)"
    using l by (simp add: min_def)
  also have "\<dots> = take (length a) b" using bc by (simp add: extends_def)
  also have "\<dots> = a" using ab by (simp add: extends_def)
  finally show ?thesis using l by (simp add: extends_def)
qed

lemma extends_append: "extends h (h @ xs)"
  by (simp add: extends_def)

lemma extends_update: "extends h h1 \<Longrightarrow> length h \<le> r \<Longrightarrow> extends h (h1[r := x])"
  by (simp add: extends_def)

lemma extends_nth: "extends h h' \<Longrightarrow> i < length h \<Longrightarrow> h' ! i = h ! i"
proof -
  assume e: "extends h h'" and i: "i < length h"
  then have "take (length h) h' ! i = h' ! i" by simp
  with e show ?thesis by (simp add: extends_def)
qed

lemma run_loop_assign:
  assumes "r < length h1"
  shows "run_loop (\<lambda>j. assign (body j) r) xs h1 = (h2, res) \<Longrightarrow>
     \<exists>x. h2 = h1[r := x] \<and>
       (case res of None \<Rightarrow> for_each body xs (h1 ! r) = Inr x
        | Some e \<Rightarrow> for_each body xs (h1 ! r) = Inl e)"
  using assms
proof (induction xs arbitrary: h1)
  case Nil
  then have "h2 = h1[r := h1 ! r]" "res = None" by simp_all
  then show ?case by (intro exI[of _ "h1 ! r"]) simp
next
  case (Cons j xs)
  show ?case
  proof (cases "body j (h1 ! r)")
    case (Inl e)
    then have "assign (body j) r h1 = Inl e" by (simp add: assign_def)
    with Cons.prems have "h2 = h1[r := h1 ! r]" "res = Some e" by simp_all
    with Inl show ?thesis by (intro exI[of _ "h1 ! r"]) simp
  next
    case (Inr df)
    then have "assign (body j) r h1 = Inr (h1[r := df])" by (simp add: assign_def)
    with Cons.prems have run: "run_loop (\<lambda>j. assign (body j) r) xs (h1[r := df]) = (h2, res)"
      by simp
    from Cons.prems have len: "r < length (h1[r := df])" by simp
    from Cons.IH[OF run len] obtain x where
      x: "h2 = (h1[r := df])[r := x]"
      and v: "case res of None \<Rightarrow> for_each body xs ((h1[r := df]) ! r) = Inr x
               | Some e \<Rightarrow> for_each body xs ((h1[r := df]) ! r) = Inl e"
      by blast
    from Cons.prems have "(h1[r := df]) ! r = df" by simp
    with x v Inr show ?thesis by (auto split: option.splits)
  qed
qed

lemma rebind_Inr:
  assumes "rebind f (h1, r) = Inr (hm, rm)" and "r < length h1"
  shows "extends h1 hm \<and> rm < length hm \<and> (rm = r \<or> length h1 \<le> rm) \<and> f (h1 ! r) = Inr (hm ! rm)"
  using assms
  by (auto simp: rebind_def alloc_def extends_refl extends_append split: sum.splits if_splits)

lemma run_loop_rebind:
  "run_loop (\<lambda>j. rebind (body j)) xs (h1, r) = ((h2, r2), res) \<Longrightarrow> r < length h1 \<Longrightarrow>
     extends h1 h2 \<and> r2 < length h2 \<and> (r2 = r \<or> length h1 \<le> r2) \<and>
       (case res of None \<Rightarrow> for_each body xs (h1 ! r) = Inr (h2 ! r2)
        | Some e \<Rightarrow> for_each body xs (h1 ! r) = Inl e)"
proof (induction xs arbitrary: h1 r)
  case Nil
  then show ?case by (auto simp: extends_refl)
next
  case (Cons j xs)
  show ?case
  proof (cases "rebind (body j) (h1, r)")
    case (Inl e)
    then have "body j (h1 ! r) = Inl e" by (auto simp: rebind_def split: sum.splits)
    with Inl Cons.prems show ?thesis by (auto simp: extends_refl)
  next
    case (Inr s')
    obtain hm rm where s': "s' = (hm, rm)" by (cases s')
    from rebind_Inr[OF Inr[unfolded s'] Cons.prems(2)] have
      e: "extends h1 hm" and l: "rm < length hm" and k: "rm = r \<or> length h1 \<le> rm"
      and b: "body j (h1 ! r) = Inr (hm ! rm)"
      by auto
    from Cons.prems(1) Inr s' have
      run: "run_loop (\<lambda>j. rebind (body j)) xs (hm, rm) = ((h2, r2), res)" by simp
    from Cons.IH[OF run l] have
      e2: "extends hm h2" and l2: "r2 < length h2" and k2: "r2 = rm \<or> length hm \<le> r2"
      and v: "case res of None \<Rightarrow> for_each body xs (hm ! rm) = Inr (h2 ! r2)
               | Some e \<Rightarrow> for_each body xs (hm ! rm) = Inl e"
      by auto
    from e have "length h1 \<le> length hm" by (simp add: extends_def)
    with k k2 have "r2 = r \<or> length h1 \<le> r2" by auto
    with extends_trans[OF e e2] l2 v b show ?thesis by (auto split: option.splits)
  qed
qed

lemma copy_facts:
  assumes "df < length h" and "df_copy h df = (h1, df1)"
  shows "extends h h1" "df1 = length h" "length h1 = Suc (length h)" "h1 ! df1 = h ! df"
  using assms by (auto simp: df_copy_def alloc_def extends_def)

lemma clean_column_names_computes: "computes clean_column_names_obj clean_column_names"
  unfolding computes_def
proof (intro allI impI)
  fix h :: heap and df :: nat assume d: "df < length h"
  obtain h1 df1 where c: "df_copy h df = (h1, df1)" by (cases "df_copy h df")
  note f = copy_facts[OF d c]
  show "case clean_column_names_obj h df of
          (h', Inl e) \<Rightarrow> extends h h' \<and> clean_column_names (h ! df) = Inl e
        | (h', Inr r) \<Rightarrow> extends h h' \<and> length h \<le> r \<and> r < length h'
              \<and> clean_column_names (h ! df) = Inr (h' ! r)"
    using f by (auto simp: clean_column_names_obj_def c clean_column_names_def extends_update
        split: sum.splits)
qed

lemma handle_duplicates_computes:
  "computes handle_duplicates_obj (\<lambda>d. Inr (handle_duplicates d))"
  by (auto simp: computes_def handle_duplicates_obj_def alloc_def handle_duplicates_def
      extends_append)

lemma finish_assign_loop:
  assumes d: "df < length h" and c: "df_copy h df = (h1, df1)"
    and cols: "cols = sel (h1 ! df1)"
  shows "case finish df1 (run_loop (\<lambda>j. assign (body j) df1) cols h1) of
          (h', Inl e) \<Rightarrow> extends h h' \<and> for_each body (sel (h ! df)) (h ! df) = Inl e
        | (h', Inr r) \<Rightarrow> extends h h' \<and> length h \<le> r \<and> r < length h'
              \<and> for_each body (sel (h ! df)) (h ! df) = Inr (h' ! r)"
proof -
  note f = copy_facts[OF d c]
  obtain h2 res where r: "run_loop (\<lambda>j. assign (body j) df1) cols h1 = (h2, res)"
    by (cases "run_loop (\<lambda>j. assign (body j) df1) cols h1")
  from f have l: "df1 < length h1" by simp
  from run_loop_assign[OF l r] obtain x where
    x: "h2 = h1[df1 := x]"
    and v: "case res of None \<Rightarrow> for_each body cols (h1 ! df1) = Inr x
               | Some e \<Rightarrow> for_each body cols (h1 ! df1) = Inl e"
    by blast
  have e: "extends h h2" using x f by (simp add: extends_update)
  have n: "h2 ! df1 = x" using x l by simp
  show ?thesis
    using r e n v f l x cols by (auto simp: finish_def split: option.splits)
qed

lemma handle_missing_values_computes:
  "computes (handle_missing_values_obj fc) (handle_missing_values fc)"
  unfolding computes_def
proof (intro allI impI)
  fix h :: heap and df :: nat assume d: "df < length h"
  obtain h1 df1 where c: "df_copy h df = (h1, df1)" by (cases "df_copy h df")
  show "case handle_missing_values_obj fc h df of
          (h', Inl e) \<Rightarrow> extends h h' \<and> handle_missing_values fc (h ! df) = Inl e
        | (h', Inr r) \<Rightarrow> extends h h' \<and> length h \<le> r \<and> r < length h'
              \<and> handle_missing_values fc (h ! df) = Inr (h' ! r)"
    unfolding handle_missing_values_obj_def c handle_missing_values_def Let_def prod.case
    by (rule finish_assign_loop[OF d c, where body="fill_missing fc"
        and sel="\<lambda>t. filter (\<lambda>j. missing_counts t j > 0) [0..<length (columns t)]", OF refl])
qed

lemma optimize_data_types_computes:
  "computes (optimize_data_types_obj fc) (optimize_data_types fc)"
  unfolding computes_def
proof (intro allI impI)
  fix h :: heap and df :: nat assume d: "df < length h"
  obtain h1 df1 where c: "df_copy h df = (h1, df1)" by (cases "df_copy h df")
  note f = copy_facts[OF d c]
  from f have l: "df1 < length h1" by simp
  obtain h2 res where
    r: "run_loop (\<lambda>j. assign (optimize_numeric fc j) df1)
          (select_dtypes (\<lambda>d. d = Int64 \<or> d = Float64) (h1 ! df1)) h1 = (h2, res)"
    by (cases "run_loop (\<lambda>j. assign (optimize_numeric fc j) df1)
          (select_dtypes (\<lambda>d. d = Int64 \<or> d = Float64) (h1 ! df1)) h1")
  from run_loop_assign[OF l r] obtain x where
    x: "h2 = h1[df1 := x]"
    and v: "case res of
        None \<Rightarrow> for_each (optimize_numeric fc)
                 (select_dtypes (\<lambda>d. d = Int64 \<or> d = Float64) (h1 ! df1)) (h1 ! df1) = Inr x
      | Some e \<Rightarrow> for_each (optimize_numeric fc)
                 (select_dtypes (\<lambda>d. d = Int64 \<or> d = Float64) (h1 ! df1)) (h1 ! df1) = Inl e"
    by blast
  have e2: "extends h h2" using x f by (simp add: extends_update)
  have l2: "df1 < length h2" using x l by simp
  have n2: "h2 ! df1 = x" using x l by simp
  show "case optimize_data_types_obj fc h df of
          (h', Inl e) \<Rightarrow> extends h h' \<and> optimize_data_types fc (h ! df) = Inl e
        | (h', Inr r) \<Rightarrow> extends h h' \<and> length h \<le> r \<and> r < length h'
              \<and> optimize_data_types fc (h ! df) = Inr (h' ! r)"
  proof (cases res)
    case (Some e)
    with v f have "optimize_data_types fc (h ! df) = Inl e"
      by (simp add: optimize_data_types_def)
    with Some r e2 show ?thesis by (simp add: optimize_data_types_obj_def c)
  next
    case None
    with v f have first: "for_each (optimize_numeric fc)
        (select_dtypes (\<lambda>d. d = Int64 \<or> d = Float64) (h ! df)) (h ! df) = Inr x"
      by simp
    obtain h3 res3 where
      r3: "run_loop (\<lambda>j. assign (optimize_object j) df1)
            (select_dtypes (\<lambda>d. d = Object) (h2 ! df1)) h2 = (h3, res3)"
      by (cases "run_loop (\<lambda>j. assign (optimize_object j) df1)
            (select_dtypes (\<lambda>d. d = Object) (h2 ! df1)) h2")
    from run_loop_assign[OF l2 r3] obtain y where
      y: "h3 = h2[df1 := y]"
      and w: "case res3 of
          None \<Rightarrow> for_each optimize_object (select_dtypes (\<lambda>d. d = Object) (h2 ! df1)) (h2 ! df1)
                   = Inr y
        | Some e \<Rightarrow> for_each optimize_object (select_dtypes (\<lambda>d. d = Object) (h2 ! df1)) (h2 ! df1)
                   = Inl e"
      by blast
    have e3: "extends h h3" using y e2 f by (simp add: extends_update)
    have n3: "h3 ! df1 = y" "df1 < length h3" using y l2 by simp_all
    from w n2 first have
      "case res3 of None \<Rightarrow> optimize_data_types fc (h ! df) = Inr y
        | Some e \<Rightarrow> optimize_data_types fc (h ! df) = Inl e"
      by (auto simp: optimize_data_types_def split: option.splits)
    with None r r3 e3 n3 f show ?thesis
      by (auto simp: optimize_data_types_obj_def c finish_def split: option.splits)
  qed
qed

lemma handle_outliers_computes:
  "computes (handle_outliers_obj fc method k) (handle_outliers fc method k)"
  unfolding computes_def
proof (intro allI impI)
  fix h :: heap and df :: nat assume d: "df < length h"
  obtain h1 df1 where c: "df_copy h df = (h1, df1)" by (cases "df_copy h df")
  note f = copy_facts[OF d c]
  from f have l: "df1 < length h1" by simp
  obtain h2 df2 res where
    r: "run_loop (\<lambda>j. rebind (outlier_step fc method k j))
          (select_dtypes is_number (h1 ! df1)) (h1, df1) = ((h2, df2), res)"
    by (cases "run_loop (\<lambda>j. rebind (outlier_step fc method k j))
          (select_dtypes is_number (h1 ! df1)) (h1, df1)") auto
  from run_loop_rebind[OF r l] have
    e: "extends h1 h2" and l2: "df2 < length h2" and k: "df2 = df1 \<or> length h1 \<le> df2"
    and v: "case res of
        None \<Rightarrow> for_each (outlier_step fc method k) (select_dtypes is_number (h1 ! df1)) (h1 ! df1)
                 = Inr (h2 ! df2)
      | Some e \<Rightarrow> for_each (outlier_step fc method k) (select_dtypes is_number (h1 ! df1)) (h1 ! df1)
                 = Inl e"
    by auto
  have e2: "extends h h2" using f(1) e by (rule extends_trans)
  have k2: "length h \<le> df2" using k f by auto
  show "case handle_outliers_obj fc method k h df of
          (h', Inl e) \<Rightarrow> extends h h' \<and> handle_outliers fc method k (h ! df) = Inl e
        | (h', Inr r) \<Rightarrow> extends h h' \<and> length h \<le> r \<and> r < length h'
              \<and> handle_outliers fc method k (h ! df) = Inr (h' ! r)"
    using r e2 k2 l2 v f
    by (auto simp: handle_outliers_obj_def c handle_outliers_def split: option.splits)
qed

lemma step_agrees:
  assumes m: "computes m f" and a: "agrees h s v"
  shows "agrees h (step_obj enabled m s) (step enabled f v)"
proof (cases "snd s")
  case (Inl e)
  with a show ?thesis by (simp add: agrees_def step_obj_def step_def)
next
  case (Inr r)
  with a have e: "extends h (fst s)" and lo: "length h \<le> r" and hi: "r < length (fst s)"
    and v: "v = Inr (fst s ! r)"
    by (simp_all add: agrees_def)
  show ?thesis
  proof (cases enabled)
    case False
    with a Inr show ?thesis by (simp add: agrees_def step_obj_def step_def)
  next
    case True
    obtain h' res where mr: "m (fst s) r = (h', res)" by (cases "m (fst s) r")
    from m[unfolded computes_def, rule_format, OF hi] mr have c: "case res of
           Inl e \<Rightarrow> extends (fst s) h' \<and> f (fst s ! r) = Inl e
         | Inr r' \<Rightarrow> extends (fst s) h' \<and> length (fst s) \<le> r' \<and> r' < length h'
               \<and> f (fst s ! r) = Inr (h' ! r')"
      by simp
    have e': "extends h h'" using c extends_trans[OF e] by (auto split: sum.splits)
    from e have "length h \<le> length (fst s)" by (simp add: extends_def)
    with c e' True Inr v mr show ?thesis
      by (auto simp: agrees_def step_obj_def step_def split: sum.splits)
  qed
qed

lemma clean_data_agrees:
  assumes "df < length h"
  shows "agrees h (clean_data_obj fc h df cfg) (clean_data fc (h ! df) cfg)"
proof (cases "df_empty (h ! df)")
  case True
  then show ?thesis
    by (simp add: clean_data_obj_def clean_data_def agrees_def extends_refl)
next
  case False
  obtain h1 df1 where c: "df_copy h df = (h1, df1)" by (cases "df_copy h df")
  note f = copy_facts[OF assms c]
  have "agrees h (h1, Inr df1) (Inr (h ! df))"
    using f by (simp add: agrees_def)
  then have "agrees h
    (step_obj (remove_outliers cfg)
           (handle_outliers_obj fc (outlier_method cfg) (outlier_threshold cfg))
        (step_obj (optimize_types cfg) (optimize_data_types_obj fc)
        (step_obj (handle_missing cfg) (handle_missing_values_obj fc)
        (step_obj (handle_duplicates_flag cfg) handle_duplicates_obj
        (step_obj (clean_columns cfg) clean_column_names_obj (h1, Inr df1))))))
    (step (remove_outliers cfg) (handle_outliers fc (outlier_method cfg) (outlier_threshold cfg))
     (step (optimize_types cfg) (optimize_data_types fc)
     (step (handle_missing cfg) (handle_missing_values fc)
     (step (handle_duplicates_flag cfg) (\<lambda>d. Inr (handle_duplicates d))
     (step (clean_columns cfg) clean_column_names (Inr (h ! df)))))))"
    by (intro step_agrees clean_column_names_computes handle_duplicates_computes
        handle_missing_values_computes optimize_data_types_computes handle_outliers_computes)
  with False show ?thesis by (simp add: clean_data_obj_def clean_data_def c)
qed

text \<open>
  Claim C6. Let the caller's frame be the object \<open>df\<close> of the store \<open>h\<close>. After
  \<^verbatim>\<open>clean_data\<close>, whether it returned or raised, that object holds the frame it held
  (columns, dtypes, index and values), and so does every other object that existed. What is
  returned is another object, and it holds the frame that \<open>clean_data\<close> computes from the
  input's value.
\<close>

theorem clean_data_leaves_input:
  assumes "df < length h"
  shows "fst (clean_data_obj fc h df cfg) ! df = h ! df
     \<and> take (length h) (fst (clean_data_obj fc h df cfg)) = h
     \<and> (case snd (clean_data_obj fc h df cfg) of
          Inl e \<Rightarrow> clean_data fc (h ! df) cfg = Inl e
        | Inr r \<Rightarrow> r \<noteq> df
            \<and> clean_data fc (h ! df) cfg = Inr (fst (clean_data_obj fc h df cfg) ! r))"
proof -
  note a = clean_data_agrees[OF assms, of fc cfg]
  then have e: "extends h (fst (clean_data_obj fc h df cfg))" by (simp add: agrees_def)
  from a assms have "case snd (clean_data_obj fc h df cfg) of
          Inl e \<Rightarrow> clean_data fc (h ! df) cfg = Inl e
        | Inr r \<Rightarrow> r \<noteq> df
            \<and> clean_data fc (h ! df) cfg = Inr (fst (clean_data_obj fc h df cfg) ! r)"
    by (auto simp: agrees_def split: sum.splits)
  with extends_nth[OF e assms] e show ?thesis by (simp add: extends_def)
qed

theorem clean_data_leaves_input_witness:
  "(0::nat) < length [sales_frame]
   \<and> snd (clean_data_obj exact_ops [sales_frame] 0 default_config) = Inr 5
   \<and> fst (clean_data_obj exact_ops [sales_frame] 0 default_config) ! 0 = sales_frame
   \<and> clean_data exact_ops sales_frame default_config
       = Inr (fst (clean_data_obj exact_ops [sales_frame] 0 default_config) ! 5)"
proof -
  have l: "(0::nat) < length [sales_frame]" by simp
  have r: "snd (clean_data_obj exact_ops [sales_frame] 0 default_config) = Inr 5"
    by code_simp
  from clean_data_leaves_input[OF l, of exact_ops default_config] l r show ?thesis
    by simp
qed

section \<open>Integer downcasting in the type optimization\<close>

lemma cell_at_update_other: "j \<noteq> j' \<Longrightarrow> cell_at (r[j' := v]) j = cell_at r j"
  by (simp add: cell_at_def)

lemma col_view_set_col_other:
  assumes "j \<noteq> j'" and "length vs = length (rows df)"
  shows "col_view (set_col df j' d vs) j = col_view df j"
proof -
  have "map (\<lambda>row. cell_at (snd row) j)
          (map (\<lambda>(row, v). (fst row, (snd row)[j' := v])) (zip (rows df) vs))
      = map (\<lambda>row. cell_at (snd row) j) (map fst (zip (rows df) vs))"
    using assms(1) by (simp add: case_prod_unfold comp_def cell_at_update_other)
  also have "\<dots> = map (\<lambda>row. cell_at (snd row) j) (rows df)"
    using assms(2) by simp
  finally have "col_cells (set_col df j' d vs) j = col_cells df j"
    by (simp add: col_cells_def set_col_def)
  moreover have "col_dtype (set_col df j' d vs) j = col_dtype df j"
    using assms(1) by (simp add: col_dtype_def set_col_def)
  ultimately show ?thesis by (simp add: col_view_def)
qed

lemma optimize_numeric_other:
  "j \<noteq> j' \<Longrightarrow> optimize_numeric fc j' df = Inr out \<Longrightarrow> col_view out j = col_view df j"
  by (auto simp: optimize_numeric_def Let_def col_view_set_col_other length_col_cells
      dest: downcast_int_length downcast_float_length split: if_splits option.splits)

lemma optimize_object_other:
  "j \<noteq> j' \<Longrightarrow> optimize_object j' df = Inr out \<Longrightarrow> col_view out j = col_view df j"
  by (auto simp: optimize_object_def Let_def col_view_set_col_other length_col_cells
      split: if_splits)

lemma for_each_other:
  assumes "\<And>x s s'. x \<in> set xs \<Longrightarrow> body x s = Inr s' \<Longrightarrow> f s' = f s"
  shows "for_each body xs s = Inr s' \<Longrightarrow> f s' = f s"
  using assms
proof (induction xs arbitrary: s)
  case Nil
  then show ?case by simp
next
  case (Cons x xs)
  from Cons.prems(1) obtain m where m: "body x s = Inr m" and r: "for_each body xs m = Inr s'"
    by (auto split: sum.splits)
  have "f s' = f m"
  proof (rule Cons.IH[OF r])
    fix y t t' assume "y \<in> set xs" "body y t = Inr t'"
    then show "f t' = f t" using Cons.prems(2)[of y t t'] by simp
  qed
  moreover have "f m = f s" using Cons.prems(2)[of x s m] m by simp
  ultimately show ?case by simp
qed

lemma optimize_numeric_length:
  "optimize_numeric fc j' df = Inr out \<Longrightarrow> length (columns out) = length (columns df)"
  by (auto simp: optimize_numeric_def Let_def length_columns_set_col
      split: if_splits option.splits)

lemma optimize_numeric_int64:
  assumes "optimize_numeric fc j df = Inr out" and "j < length (columns df)"
    and "col_dtype df j = Int64" and "ints (col_cells df j) \<noteq> []"
  shows "col_view out j =
     (if strictly_inside 8 (col_cells df j) then Int8
      else if strictly_inside 16 (col_cells df j) then Int16
      else if strictly_inside 32 (col_cells df j) then Int32
      else Int64, col_cells df j)"
proof -
  from assms(1) have u: "unique_label df j"
    by (auto simp: optimize_numeric_def split: if_splits)
  from optimize_numeric_int64_frame[OF u assms(3,4), of fc] assms(1)
  have "out = df\<lparr>columns := (columns df)[j := (fst (columns df ! j),
            if strictly_inside 8 (col_cells df j) then Int8
            else if strictly_inside 16 (col_cells df j) then Int16
            else if strictly_inside 32 (col_cells df j) then Int32
            else Int64)]\<rparr>"
    by simp
  then show ?thesis using assms(2) by (simp add: col_view_def col_dtype_def col_cells_def)
qed

lemma select_dtypes_split:
  assumes "j < length (columns df)" and "P (col_dtype df j)"
  shows "\<exists>pre post. select_dtypes P df = pre @ j # post \<and> j \<notin> set pre \<and> j \<notin> set post"
proof -
  have d: "distinct (select_dtypes P df)" by (simp add: select_dtypes_def)
  have "j \<in> set (select_dtypes P df)" using assms by (simp add: select_dtypes_def)
  then obtain pre post where s: "select_dtypes P df = pre @ j # post"
    by (auto dest: split_list)
  with d have "j \<notin> set pre \<and> j \<notin> set post" by auto
  with s show ?thesis by blast
qed

text \<open>
  Claim C5, as the code has it. When the type optimization returns, every \<^verbatim>\<open>int64\<close>
  column with at least one value has the narrowest of the 8, 16 and 32-bit types whose two
  limits lie strictly outside the observed minimum and maximum, and is still
  \<^verbatim>\<open>int64\<close> when there is none; and every value of the column is the one it was.
\<close>

theorem optimize_data_types_int64:
  assumes ret: "optimize_data_types fc df = Inr out"
    and j: "j < length (columns df)"
    and dt: "col_dtype df j = Int64"
    and vals: "ints (col_cells df j) \<noteq> []"
  shows "col_cells out j = col_cells df j
     \<and> col_dtype out j =
        (if strictly_inside 8 (col_cells df j) then Int8
         else if strictly_inside 16 (col_cells df j) then Int16
         else if strictly_inside 32 (col_cells df j) then Int32
         else Int64)"
proof -
  let ?tier = "if strictly_inside 8 (col_cells df j) then Int8
         else if strictly_inside 16 (col_cells df j) then Int16
         else if strictly_inside 32 (col_cells df j) then Int32
         else Int64"
  from ret obtain df1 where
    a: "for_each (optimize_numeric fc) (select_dtypes (\<lambda>d. d = Int64 \<or> d = Float64) df) df = Inr df1"
    and b: "for_each optimize_object (select_dtypes (\<lambda>d. d = Object) df1) df1 = Inr out"
    by (auto simp: optimize_data_types_def split: sum.splits)
  from select_dtypes_split[OF j, of "\<lambda>d. d = Int64 \<or> d = Float64"] dt obtain pre post where
    sp: "select_dtypes (\<lambda>d. d = Int64 \<or> d = Float64) df = pre @ j # post"
    and np: "j \<notin> set pre" and nq: "j \<notin> set post"
    by auto
  from a sp obtain mid nxt where
    m: "for_each (optimize_numeric fc) pre df = Inr mid"
    and st: "optimize_numeric fc j mid = Inr nxt"
    and rest: "for_each (optimize_numeric fc) post nxt = Inr df1"
    by (auto simp: for_each_append split: sum.splits)
  have "\<And>x s s'. x \<in> set pre \<Longrightarrow> optimize_numeric fc x s = Inr s'
      \<Longrightarrow> col_view s' j = col_view s j"
    using np by (auto intro: optimize_numeric_other)
  from for_each_other[of pre "optimize_numeric fc" "\<lambda>t. col_view t j", OF this m]
  have v1: "col_view mid j = col_view df j" .
  have "\<And>x s s'. x \<in> set pre \<Longrightarrow> optimize_numeric fc x s = Inr s'
      \<Longrightarrow> length (columns s') = length (columns s)"
    by (auto dest: optimize_numeric_length)
  from for_each_other[of pre "optimize_numeric fc" "\<lambda>t. length (columns t)", OF this m]
  have l1: "length (columns mid) = length (columns df)" .
  from v1 have dm: "col_dtype mid j = Int64" and cm: "col_cells mid j = col_cells df j"
    using dt by (simp_all add: col_view_def)
  from optimize_numeric_int64[OF st] l1 j dm cm vals
  have v2: "col_view nxt j = (?tier, col_cells df j)" by simp
  have "\<And>x s s'. x \<in> set post \<Longrightarrow> optimize_numeric fc x s = Inr s'
      \<Longrightarrow> col_view s' j = col_view s j"
    using nq by (auto intro: optimize_numeric_other)
  from for_each_other[of post "optimize_numeric fc" "\<lambda>t. col_view t j", OF this rest]
  have v3: "col_view df1 j = col_view nxt j" .
  from v2 v3 have "col_dtype df1 j \<noteq> Object" by (auto simp: col_view_def split: if_splits)
  then have no: "j \<notin> set (select_dtypes (\<lambda>d. d = Object) df1)"
    by (simp add: select_dtypes_def)
  have "\<And>x s s'. x \<in> set (select_dtypes (\<lambda>d. d = Object) df1)
      \<Longrightarrow> optimize_object x s = Inr s' \<Longrightarrow> col_view s' j = col_view s j"
    using no by (auto intro: optimize_object_other)
  from for_each_other[of "select_dtypes (\<lambda>d. d = Object) df1" optimize_object
      "\<lambda>t. col_view t j", OF this b]
  have v4: "col_view out j = col_view df1 j" .
  from v2 v3 v4 show ?thesis by (simp add: col_view_def)
qed

theorem optimize_data_types_int64_witness:
  "optimize_data_types exact_ops sales_frame =
       Inr (sales_frame\<lparr>columns := [(SName ''Product Name'', Object),
              (SName ''Sales Amount'', Int16), (SName ''Region'', Object)]\<rparr>)
   \<and> (1::nat) < length (columns sales_frame)
   \<and> col_dtype sales_frame 1 = Int64
   \<and> ints (col_cells sales_frame 1) \<noteq> []
   \<and> col_cells (sales_frame\<lparr>columns := [(SName ''Product Name'', Object),
              (SName ''Sales Amount'', Int16), (SName ''Region'', Object)]\<rparr>) 1
       = [IntV 10, IntV 10, IntV 300]"
proof -
  have h: "optimize_data_types exact_ops sales_frame =
       Inr (sales_frame\<lparr>columns := [(SName ''Product Name'', Object),
              (SName ''Sales Amount'', Int16), (SName ''Region'', Object)]\<rparr>)"
    by code_simp
  have j: "(1::nat) < length (columns sales_frame)" by code_simp
  have d: "col_dtype sales_frame 1 = Int64" by code_simp
  have v: "ints (col_cells sales_frame 1) \<noteq> []" by code_simp
  have c: "col_cells sales_frame 1 = [IntV 10, IntV 10, IntV 300]" by code_simp
  from optimize_data_types_int64[OF h j d v] h j d v c show ?thesis by simp
qed

text \<open>With a repeated label the optimization raises instead.\<close>

lemma optimize_data_types_repeated_label:
  "optimize_data_types exact_ops
     \<lparr>columns = [(SName ''qty'', Int64), (SName ''qty'', Int64)],
      rows = [(0, [IntV 1, IntV 2])]\<rparr>
   = Inl (AttributeError ''dtype'')"
  by code_simp

section \<open>Reading an upload and serving the dashboard\<close>




text \<open>
  Claim C9 fails on the code where the error number of an address in use is not 48, which
  is its value on macOS: on Linux it is 98, and with port 8000 taken the first
  \<^verbatim>\<open>OSError\<close> is raised again, no other port is tried and nothing is reported.
\<close>

theorem serve_dashboard_live_linux:
  "serve_dashboard_live (\<lambda>port. OSError 98) = Raised 98"
  by code_simp

text \<open>
  Where the error number of an address in use is 48 the loop does what the claim says: it
  serves at the first port from 8000 that binds, and with the ten ports from 8000 to 8009
  in use it reports that no port was found.
\<close>

lemma try_ports_first_free:
  assumes "\<forall>i < n. net (port + i) = OSError 48" and "net (port + n) = Bound"
    and "length attempts = Suc n + m" and "max_attempts - 1 \<notin> set (take n attempts)"
  shows "try_ports net port attempts = Serving (port + n)"
  using assms
proof (induction n arbitrary: port attempts)
  case 0
  then obtain a rest where "attempts = a # rest" by (cases attempts) auto
  with 0 show ?case by simp
next
  case (Suc n)
  then obtain a rest where a: "attempts = a # rest" by (cases attempts) auto
  from Suc.prems(1) have p: "net port = OSError 48" by (metis add.right_neutral zero_less_Suc)
  have "try_ports net (port + 1) rest = Serving (port + 1 + n)"
  proof (rule Suc.IH)
    show "\<forall>i<n. net (port + 1 + i) = OSError 48" using Suc.prems(1) by (auto simp: add.assoc)
    show "net (port + 1 + n) = Bound" using Suc.prems(2) by simp
    show "length rest = Suc n + m" using Suc.prems(3) a by simp
    show "max_attempts - 1 \<notin> set (take n rest)" using Suc.prems(4) a by simp
  qed
  with p a Suc.prems(4) show ?case by simp
qed

lemma serve_dashboard_live_all_in_use:
  assumes "\<forall>port \<in> {8000..8009}. net port = OSError 48"
  shows "serve_dashboard_live net = Reported
    ''Could not find an available port after 10 attempts. Please close some applications and try again.''"
proof -
  have u: "[0..<max_attempts] = [0, 1, 2, 3, 4, 5, 6, 7, 8, 9]"
    by (simp add: max_attempts_def upt_rec)
  from assms have "net 8000 = OSError 48" "net 8001 = OSError 48" "net 8002 = OSError 48"
    "net 8003 = OSError 48" "net 8004 = OSError 48" "net 8005 = OSError 48"
    "net 8006 = OSError 48" "net 8007 = OSError 48" "net 8008 = OSError 48"
    "net 8009 = OSError 48"
    by simp_all
  then show ?thesis unfolding serve_dashboard_live_def u by (simp add: max_attempts_def)
qed

end
